theory Spec2Isabelle
  imports Complex_Main "HOL-Library.AList"
begin

section \<open>Conventions of the embedding\<close>

text \<open>
  The backend (\<^verbatim>\<open>src/backend/server.ts\<close>) is embedded function by function.

  \<^item> A JavaScript \<^verbatim>\<open>number\<close> that carries an identifier (vehicle, route, stop) is an
    \<open>int\<close>; a \<^verbatim>\<open>number\<close> that carries a measurement (latitude, longitude, distance,
    minutes of the day) is a \<open>real\<close>: IEEE rounding is not modelled.
  \<^item> A \<^verbatim>\<open>Date\<close> is its epoch value in milliseconds. A local-time getter takes as
    \<open>tz\<close> the milliseconds that local time is ahead of UTC at the instant it reads. A
    function that reads several instants, or converts a local time back, takes the
    \<open>zone\<close>, which gives that offset for every instant and for every local time, so
    that a daylight-saving change inside the period it looks at is part of the model.
  \<^item> A field the code tests with \<^verbatim>\<open>typeof x !== "number"\<close>, \<^verbatim>\<open>!x\<close> or \<^verbatim>\<open>x ?? null\<close> is an
    \<open>option\<close>.
  \<^item> A \<^verbatim>\<open>Map\<close> whose iteration order reaches the output is an association list in
    insertion order (\<open>AList.update\<close> replaces in place or appends, as \<^verbatim>\<open>Map.set\<close>
    does); a \<^verbatim>\<open>Set\<close> that is iterated is a list without duplicates in insertion
    order; a \<^verbatim>\<open>Map\<close> or \<^verbatim>\<open>Set\<close> that is only looked up is a HOL map or set.
  \<^item> Module-level variables are the fields of the record \<open>engine\<close>; the tables of the
    database are the fields of the record \<open>database\<close>; a function that awaits the
    database or the provider takes and returns them.
\<close>

section \<open>Dates\<close>

type_synonym Date = int

definition getHours :: "int \<Rightarrow> Date \<Rightarrow> int" where
  "getHours tz d = ((d + tz) div 3600000) mod 24"

definition getMinutes :: "int \<Rightarrow> Date \<Rightarrow> int" where
  "getMinutes tz d = ((d + tz) div 60000) mod 60"

definition getSeconds :: "int \<Rightarrow> Date \<Rightarrow> int" where
  "getSeconds tz d = ((d + tz) div 1000) mod 60"

text \<open>
  The zone of the process, as ECMAScript's \<^verbatim>\<open>LocalTZA(t, isUTC)\<close>: \<open>z t True\<close> is the
  offset in force at the instant \<open>t\<close>, \<open>z t False\<close> the offset that the runtime takes for
  the local time value \<open>t\<close> (also where the clock shows that time twice or never).
  \<open>LocalTime\<close> and \<open>UTC\<close> are the two conversions of the language specification.
\<close>

type_synonym zone = "int \<Rightarrow> bool \<Rightarrow> int"

definition LocalTime :: "zone \<Rightarrow> Date \<Rightarrow> int" where
  "LocalTime z t = t + z t True"

definition UTC :: "zone \<Rightarrow> int \<Rightarrow> Date" where
  "UTC z t = t - z t False"

text \<open>
  \<^verbatim>\<open>localDateKey\<close> prints the local calendar date as \<^verbatim>\<open>YYYY-MM-DD\<close>. The string is
  only ever compared for equality, so the model keeps the number of the local day
  instead, which determines the printed date and is determined by it.
\<close>

definition localDateKey :: "zone \<Rightarrow> Date \<Rightarrow> int" where
  "localDateKey z d = LocalTime z d div 86400000"

text \<open>\<^verbatim>\<open>date.setDate(today.getDate() - i)\<close> on a copy of \<open>today\<close>: \<^verbatim>\<open>setDate\<close> takes the
  local time of the date, replaces the day of the month, which moves the local time
  value by whole days and keeps the time within the day, and converts the result
  back.\<close>

definition minusDays :: "zone \<Rightarrow> Date \<Rightarrow> int \<Rightarrow> Date" where
  "minusDays z today i = UTC z (LocalTime z today - i * 86400000)"

definition timeToMinutes :: "zone \<Rightarrow> Date \<Rightarrow> real" where
  "timeToMinutes z d =
     (let tz = z d True
      in real_of_int (getHours tz d) * 60 + real_of_int (getMinutes tz d)
           + real_of_int (getSeconds tz d) / 60)"

section \<open>Poll scheduler: interval selection\<close>

definition POLL_DAY_INTERVAL_MS :: int where "POLL_DAY_INTERVAL_MS = 15000"
definition POLL_NIGHT_INTERVAL_MS :: int where "POLL_NIGHT_INTERVAL_MS = 60000"
definition DAY_START_HOUR :: int where "DAY_START_HOUR = 6"
definition DAY_END_HOUR :: int where "DAY_END_HOUR = 24"
definition RETENTION_DAYS :: int where "RETENTION_DAYS = 30"
definition STOP_RADIUS_METERS :: real where "STOP_RADIUS_METERS = 50"
definition STOP_EXIT_RADIUS_METERS :: real where "STOP_EXIT_RADIUS_METERS = 60"

definition getPollIntervalMs :: "int \<Rightarrow> Date \<Rightarrow> int" where
  "getPollIntervalMs tz now =
     (let hour = getHours tz now
      in if hour \<ge> DAY_START_HOUR \<and> hour < DAY_END_HOUR then POLL_DAY_INTERVAL_MS
         else POLL_NIGHT_INTERVAL_MS)"

section \<open>Percentiles and the positional merge\<close>

definition percentile :: "real list \<Rightarrow> real \<Rightarrow> real option" where
  "percentile values p =
     (if length values = 0 then None
      else
        let sorted = sort values;
            idx = max 0 (min (real (length sorted) - 1) (p * (real (length sorted) - 1)));
            lower = \<lfloor>idx\<rfloor>;
            upper = \<lceil>idx\<rceil>
        in if lower = upper then Some (sorted ! nat lower)
           else
             let weight = idx - of_int lower
             in Some (sorted ! nat lower
                        + (sorted ! nat upper - sorted ! nat lower) * weight))"

definition buildPredictedTimes :: "real list list \<Rightarrow> real list" where
  "buildPredictedTimes dayValues =
     (if length dayValues = 0 then []
      else
        let sortedDays = map (\<lambda>values. sort values) dayValues;
            maxCount = foldl (\<lambda>acc values. max acc (length values)) 0 sortedDays
        in fold (\<lambda>i predicted.
                   let samples = map (\<lambda>values. values ! i)
                                   (filter (\<lambda>values. length values > i) sortedDays)
                   in if length samples = 0 then predicted
                      else (case percentile samples (1/2) of
                              None \<Rightarrow> predicted
                            | Some p50 \<Rightarrow> predicted @ [p50]))
                [0..<maxCount] [])"

text \<open>
  The specification's wording of the same computation, for comparison with the code:
  the 50th percentile with linear interpolation between order statistics is the middle
  order statistic of an odd number of samples and the mean of the two middle ones of
  an even number; run \<open>i\<close> takes it over the \<open>i\<close>-th sorted time of every day that has
  more than \<open>i\<close> runs.
\<close>

definition spec_median :: "real list \<Rightarrow> real" where
  "spec_median samples =
     (let s = sort samples; n = length s
      in if odd n then s ! ((n - 1) div 2)
         else (s ! (n div 2 - 1) + s ! (n div 2)) / 2)"

definition spec_positional_merge :: "real list list \<Rightarrow> real list" where
  "spec_positional_merge dayValues =
     map (\<lambda>i. spec_median (map (\<lambda>values. sort values ! i)
                              (filter (\<lambda>values. i < length values) dayValues)))
         [0..<Max (set (0 # map length dayValues))]"

section \<open>Provider data\<close>

text \<open>
  The records of the provider's JSON, as \<^verbatim>\<open>server.ts\<close> types them. Field names are
  the source's behind a prefix for the record (\<open>v_\<close> Vehicle, \<open>r_\<close> Route, \<open>t_\<close> Trip,
  \<open>st_\<close> StopTime, \<open>sp_\<close> ShapePoint), since several records share field names; the
  fields of \<open>Stop\<close> are unique and keep their names. \<open>v_timestamp\<close> is the report
  time as \<^verbatim>\<open>new Date(vehicle.timestamp)\<close> reads it, \<open>None\<close> for an absent or empty
  string.
\<close>

record Vehicle =
  v_id :: int
  v_label :: string
  v_latitude :: "real option"
  v_longitude :: "real option"
  v_timestamp :: "Date option"
  v_speed :: "real option"
  v_route_id :: "int option"
  v_trip_id :: "string option"
  v_vehicle_type :: "int option"
  v_bike_accessible :: "string option"
  v_wheelchair_accessible :: "string option"

record Route =
  r_agency_id :: int
  r_route_id :: int
  r_route_short_name :: string
  r_route_long_name :: string
  r_route_color :: string
  r_route_type :: int
  r_route_desc :: string

record Trip =
  t_route_id :: int
  t_trip_id :: string
  t_trip_headsign :: string
  t_direction_id :: int
  t_block_id :: int
  t_shape_id :: string

record Stop =
  stop_id :: int
  stop_name :: string
  stop_lat :: real
  stop_lon :: real
  location_type :: int
  stop_code :: "string option"

record StopTime =
  st_trip_id :: string
  st_stop_id :: int
  st_stop_sequence :: int
  st_arrival_time :: "string option"
  st_departure_time :: "string option"
  st_stop_headsign :: "string option"
  st_pickup_type :: "int option"
  st_drop_off_type :: "int option"
  st_shape_dist_traveled :: "real option"
  st_timepoint :: "int option"

record ShapePoint =
  sp_shape_id :: string
  sp_shape_pt_lat :: real
  sp_shape_pt_lon :: real
  sp_shape_pt_sequence :: int
  sp_shape_dist_traveled :: "real option"

section \<open>Persisted rows and the database\<close>

text \<open>
  Rows of \<^verbatim>\<open>db/schema.ts\<close> (prefixes \<open>rr_\<close>, \<open>sr_\<close>, \<open>vs_\<close>, \<open>sv_\<close>, \<open>ds_\<close>). The rows of
  \<^verbatim>\<open>trips\<close>, \<^verbatim>\<open>stop_times\<close> and \<^verbatim>\<open>shapes\<close> are the provider's records with the
  columns renamed, so the tables hold those records. Serial \<^verbatim>\<open>id\<close> columns are left
  out. \<^verbatim>\<open>route_daily_stats\<close> has the primary key (day, route), so it is a map from
  that key to the two timestamps; the day is the number of the UTC day, which stands
  for the first ten characters of \<^verbatim>\<open>toISOString()\<close>.
\<close>

record RouteRow =
  rr_routeId :: int
  rr_agencyId :: int
  rr_routeShortName :: string
  rr_routeLongName :: string
  rr_routeColor :: string
  rr_routeType :: int
  rr_routeDesc :: string
  rr_updatedAt :: Date

record StopRow =
  sr_stopId :: int
  sr_stopName :: string
  sr_stopLat :: real
  sr_stopLon :: real
  sr_locationType :: int
  sr_stopCode :: string

record VehicleSnapshot =
  vs_fetchedAt :: Date
  vs_vehicleId :: int
  vs_routeId :: "int option"
  vs_tripId :: "string option"
  vs_latitude :: "real option"
  vs_longitude :: "real option"
  vs_timestamp :: "Date option"
  vs_speed :: "real option"
  vs_vehicleType :: "int option"
  vs_bikeAccessible :: "string option"
  vs_wheelchairAccessible :: "string option"

record StopVisit =
  sv_stopId :: int
  sv_routeId :: "int option"
  sv_tripId :: "string option"
  sv_vehicleId :: int
  sv_observedAt :: Date
  sv_fetchedAt :: Date
  sv_latitude :: real
  sv_longitude :: real
  sv_distanceMeters :: real

record DailyStat =
  ds_firstSeenAt :: Date
  ds_lastSeenAt :: Date

record database =
  routes :: "RouteRow list"
  trips :: "Trip list"
  stops :: "StopRow list"
  stopTimes :: "StopTime list"
  shapes :: "ShapePoint list"
  vehicleSnapshots :: "VehicleSnapshot list"
  stopVisits :: "StopVisit list"
  routeDailyStats :: "(int \<times> int) \<rightharpoonup> DailyStat"

section \<open>Module state\<close>

text \<open>
  \<open>stopInsideByVehicle\<close> is a \<^verbatim>\<open>Set\<close> of the strings \<^verbatim>\<open>`${vehicle.id}:${stop.stop_id}`\<close>;
  two numbers determine the string and the string determines them, so the model keeps
  the pair.
\<close>

record TripInfo =
  ti_routeId :: int
  ti_directionId :: int

record engine =
  stopsCache :: "Stop list"
  stopById :: "int \<rightharpoonup> Stop"
  stopInsideByVehicle :: "(int \<times> int) set"
  tripByIdCache :: "string \<rightharpoonup> TripInfo"
  stopIdsByTripId :: "string \<rightharpoonup> int list"
  latestVehiclesCache :: "Vehicle list"
  latestVehiclesFetchedAt :: "Date option"

section \<open>Errors and the provider\<close>

text \<open>
  What a rejected promise carries: the \<^verbatim>\<open>Error\<close> that \<^verbatim>\<open>fetchJson\<close> throws on a
  response that is not ok, a \<^verbatim>\<open>fetch\<close> that rejects, and the two errors PostgreSQL
  raises on the statements this code sends: a duplicate primary key in an
  \<^verbatim>\<open>INSERT\<close>, and an \<^verbatim>\<open>ON CONFLICT DO UPDATE\<close> that would touch one row twice. Other
  constraints cannot fail on the typed records.
\<close>

datatype error =
  TransitApiError string nat
  | FetchRejected string
  | UniqueViolation string
  | CardinalityViolation string

record 'a HttpResponse =
  ok :: bool
  status :: nat
  body :: 'a

text \<open>The provider: what \<^verbatim>\<open>fetch\<close> yields on each of its six endpoints.\<close>

record provider =
  vehiclesEndpoint :: "error + Vehicle list HttpResponse"
  routesEndpoint :: "error + Route list HttpResponse"
  tripsEndpoint :: "error + Trip list HttpResponse"
  stopsEndpoint :: "error + Stop list HttpResponse"
  stopTimesEndpoint :: "error + StopTime list HttpResponse"
  shapesEndpoint :: "error + ShapePoint list HttpResponse"

definition fetchJson :: "string \<Rightarrow> error + 'a HttpResponse \<Rightarrow> error + 'a" where
  "fetchJson path fetched =
     (case fetched of
        Inl e \<Rightarrow> Inl e
      | Inr response \<Rightarrow>
          if \<not> ok response then Inl (TransitApiError path (status response))
          else Inr (body response))"

text \<open>An awaited step that may throw, followed by the rest of the function: the state
  a throwing step leaves behind stays.\<close>

definition andThen ::
  "('s \<Rightarrow> (error + 'a) \<times> 's) \<Rightarrow> ('a \<Rightarrow> 's \<Rightarrow> (error + 'b) \<times> 's) \<Rightarrow> 's \<Rightarrow> (error + 'b) \<times> 's" where
  "andThen step rest s = (case step s of (Inl e, s') \<Rightarrow> (Inl e, s') | (Inr x, s') \<Rightarrow> rest x s')"

section \<open>Persistence helpers\<close>

text \<open>One \<^verbatim>\<open>INSERT\<close> of a batch into a table with a primary key: the statement
  fails as a whole on a key that is already there or twice in the batch.\<close>

definition insertValues ::
  "string \<Rightarrow> ('r \<Rightarrow> 'k) \<Rightarrow> 'r list \<Rightarrow> 'r list \<Rightarrow> error + 'r list" where
  "insertValues name pk batch tbl =
     (if distinct (map pk batch) \<and> list_all (\<lambda>row. pk row \<notin> set (map pk tbl)) batch
      then Inr (tbl @ batch)
      else Inl (UniqueViolation name))"

text \<open>An \<^verbatim>\<open>INSERT\<close> into a table whose only key is its serial \<^verbatim>\<open>id\<close>.\<close>

definition insertSerial :: "'r list \<Rightarrow> 'r list \<Rightarrow> error + 'r list" where
  "insertSerial batch tbl = Inr (tbl @ batch)"

text \<open>\<^verbatim>\<open>chunkedInsert\<close> with its default \<^verbatim>\<open>chunkSize\<close> of 1000, which every call site
  uses. The loop over \<^verbatim>\<open>i\<close> is the recursion on the rows not yet sent.\<close>

function chunkedInsert ::
  "('r list \<Rightarrow> 'r list \<Rightarrow> error + 'r list) \<Rightarrow> 'r list \<Rightarrow> 'r list \<Rightarrow> (error + unit) \<times> 'r list" where
  "chunkedInsert ins rows tbl =
     (if rows = [] then (Inr (), tbl)
      else
        let batch = take 1000 rows
        in (case ins batch tbl of
              Inl e \<Rightarrow> (Inl e, tbl)
            | Inr tbl' \<Rightarrow> chunkedInsert ins (drop 1000 rows) tbl'))"
  by pat_completeness auto
termination
  by (relation "measure (\<lambda>(ins, rows, tbl). length rows)") auto

declare chunkedInsert.simps [simp del]

definition toRouteRow :: "Date \<Rightarrow> Route \<Rightarrow> RouteRow" where
  "toRouteRow now route =
     \<lparr> rr_routeId = r_route_id route, rr_agencyId = r_agency_id route,
       rr_routeShortName = r_route_short_name route,
       rr_routeLongName = r_route_long_name route,
       rr_routeColor = r_route_color route, rr_routeType = r_route_type route,
       rr_routeDesc = r_route_desc route, rr_updatedAt = now \<rparr>"

text \<open>\<^verbatim>\<open>ON CONFLICT (route_id) DO UPDATE\<close> setting every column to the excluded row's.\<close>

definition upsertRow :: "RouteRow \<Rightarrow> RouteRow list \<Rightarrow> RouteRow list" where
  "upsertRow row tbl =
     (if rr_routeId row \<in> set (map rr_routeId tbl)
      then map (\<lambda>old. if rr_routeId old = rr_routeId row then row else old) tbl
      else tbl @ [row])"

definition upsertRoutes :: "Date \<Rightarrow> Route list \<Rightarrow> database \<Rightarrow> (error + unit) \<times> database" where
  "upsertRoutes now data db =
     (if length data = 0 then (Inr (), db)
      else if \<not> distinct (map r_route_id data) then (Inl (CardinalityViolation ''routes''), db)
      else (Inr (), db\<lparr> routes := fold upsertRow (map (toRouteRow now) data) (routes db) \<rparr>))"

definition toStopRow :: "Stop \<Rightarrow> StopRow" where
  "toStopRow stop =
     \<lparr> sr_stopId = stop_id stop, sr_stopName = stop_name stop, sr_stopLat = stop_lat stop,
       sr_stopLon = stop_lon stop, sr_locationType = location_type stop,
       sr_stopCode = (case stop_code stop of None \<Rightarrow> [] | Some c \<Rightarrow> c) \<rparr>"

definition fromStopRow :: "StopRow \<Rightarrow> Stop" where
  "fromStopRow row =
     \<lparr> stop_id = sr_stopId row, stop_name = sr_stopName row, stop_lat = sr_stopLat row,
       stop_lon = sr_stopLon row, location_type = sr_locationType row,
       stop_code = Some (sr_stopCode row) \<rparr>"

text \<open>\<^verbatim>\<open>new Map(entries)\<close>: a later entry replaces an earlier one with the same key.\<close>

definition newMap :: "('k \<times> 'v) list \<Rightarrow> ('k \<rightharpoonup> 'v)" where
  "newMap entries = fold (\<lambda>(k, v) m. m(k \<mapsto> v)) entries Map.empty"

text \<open>\<^verbatim>\<open>Set.prototype.add\<close> on a set kept in insertion order.\<close>

definition setAdd :: "'a \<Rightarrow> 'a list \<Rightarrow> 'a list" where
  "setAdd x xs = (if x \<in> set xs then xs else xs @ [x])"

section \<open>Static refresh\<close>

definition loadStopsCache :: "engine \<times> database \<Rightarrow> engine \<times> database" where
  "loadStopsCache s =
     (case s of (eng, db) \<Rightarrow>
        let rows = stops db;
            cache = map fromStopRow rows
        in (eng\<lparr> stopsCache := cache,
                 stopById := newMap (map (\<lambda>stop. (stop_id stop, stop)) cache) \<rparr>, db))"

definition buildStaticCaches :: "Trip list \<Rightarrow> Stop list \<Rightarrow> StopTime list \<Rightarrow> engine \<Rightarrow> engine" where
  "buildStaticCaches tripsData stopsData stopTimesData eng =
     eng\<lparr> stopsCache := stopsData,
          stopById := newMap (map (\<lambda>stop. (stop_id stop, stop)) stopsData),
          tripByIdCache :=
            fold (\<lambda>trip m. m(t_trip_id trip \<mapsto>
                               \<lparr> ti_routeId = t_route_id trip,
                                 ti_directionId = t_direction_id trip \<rparr>))
                 tripsData Map.empty,
          stopIdsByTripId :=
            fold (\<lambda>stopTime m.
                    let m' = (if m (st_trip_id stopTime) = None
                              then m(st_trip_id stopTime \<mapsto> []) else m)
                    in (case m' (st_trip_id stopTime) of
                          None \<Rightarrow> m'
                        | Some ids \<Rightarrow>
                            m'(st_trip_id stopTime \<mapsto> setAdd (st_stop_id stopTime) ids)))
                 stopTimesData Map.empty \<rparr>"

text \<open>A statement on the database, or on one table of it, inside a function that holds
  the module state too.\<close>

definition onDb ::
  "(database \<Rightarrow> (error + unit) \<times> database) \<Rightarrow> engine \<times> database \<Rightarrow>
   (error + unit) \<times> (engine \<times> database)" where
  "onDb act s = (case s of (eng, db) \<Rightarrow> (case act db of (r, db') \<Rightarrow> (r, (eng, db'))))"

definition onTable ::
  "(database \<Rightarrow> 'r list) \<Rightarrow> ('r list \<Rightarrow> database \<Rightarrow> database) \<Rightarrow>
   ('r list \<Rightarrow> (error + unit) \<times> 'r list) \<Rightarrow> engine \<times> database \<Rightarrow>
   (error + unit) \<times> (engine \<times> database)" where
  "onTable sel upd act s =
     (case s of (eng, db) \<Rightarrow>
        (case act (sel db) of (r, tbl') \<Rightarrow> (r, (eng, upd tbl' db))))"

text \<open>
  \<^verbatim>\<open>refreshStaticData\<close>. \<^verbatim>\<open>Promise.all\<close> rejects when one of the five fetches does (the
  model reports the first in the order of the array) and nothing after it runs. The
  four \<^verbatim>\<open>db.delete\<close> and every chunk of every insert are statements of their own: the
  code opens no transaction.
\<close>

definition refreshStaticData ::
  "provider \<Rightarrow> Date \<Rightarrow> engine \<times> database \<Rightarrow> (error + unit) \<times> (engine \<times> database)" where
  "refreshStaticData provider now s =
     (case fetchJson ''routes'' (routesEndpoint provider) of
        Inl e \<Rightarrow> (Inl e, s)
      | Inr routesData \<Rightarrow>
     (case fetchJson ''trips'' (tripsEndpoint provider) of
        Inl e \<Rightarrow> (Inl e, s)
      | Inr tripsData \<Rightarrow>
     (case fetchJson ''stops'' (stopsEndpoint provider) of
        Inl e \<Rightarrow> (Inl e, s)
      | Inr stopsData \<Rightarrow>
     (case fetchJson ''stop_times'' (stopTimesEndpoint provider) of
        Inl e \<Rightarrow> (Inl e, s)
      | Inr stopTimesData \<Rightarrow>
     (case fetchJson ''shapes'' (shapesEndpoint provider) of
        Inl e \<Rightarrow> (Inl e, s)
      | Inr shapesData \<Rightarrow>
     (case s of (eng, db) \<Rightarrow>
        (let db1 = db\<lparr> trips := [] \<rparr>;
             db2 = db1\<lparr> stops := [] \<rparr>;
             db3 = db2\<lparr> stopTimes := [] \<rparr>;
             db4 = db3\<lparr> shapes := [] \<rparr>
         in (andThen (onDb (upsertRoutes now routesData))
              (\<lambda>_. andThen (onTable trips (\<lambda>t d. d\<lparr> trips := t \<rparr>)
                              (chunkedInsert (insertValues ''trips'' t_trip_id) tripsData))
              (\<lambda>_. andThen (onTable stops (\<lambda>t d. d\<lparr> stops := t \<rparr>)
                              (chunkedInsert (insertValues ''stops'' sr_stopId)
                                 (map toStopRow stopsData)))
              (\<lambda>_. andThen (\<lambda>s1. (Inr (), loadStopsCache s1))
              (\<lambda>_. andThen (onTable stopTimes (\<lambda>t d. d\<lparr> stopTimes := t \<rparr>)
                              (chunkedInsert
                                 (insertValues ''stop_times''
                                    (\<lambda>row. (st_trip_id row, st_stop_sequence row)))
                                 stopTimesData))
              (\<lambda>_. andThen (onTable shapes (\<lambda>t d. d\<lparr> shapes := t \<rparr>)
                              (chunkedInsert
                                 (insertValues ''shapes''
                                    (\<lambda>row. (sp_shape_id row, sp_shape_pt_sequence row)))
                                 shapesData))
              (\<lambda>_ s2. (case s2 of (eng2, db6) \<Rightarrow>
                         (Inr (), (buildStaticCaches tripsData stopsData stopTimesData eng2,
                                   db6)))))))))
             (eng, db4)))))))))"

section \<open>Per-cycle persistence\<close>

definition utcDay :: "Date \<Rightarrow> int" where
  "utcDay d = d div 86400000"

text \<open>\<^verbatim>\<open>byRoute\<close> is a \<^verbatim>\<open>Map\<close> from route to date, filled with \<open>fetchedAt\<close> at the
  first vehicle of each route; its keys become the rows of one upsert. \<open>mergeStat\<close> is
  what the statement leaves in a row: the inserted values where the key is new, and
  the conflict clause's \<^verbatim>\<open>LEAST\<close> and \<^verbatim>\<open>GREATEST\<close> where it is not.\<close>

definition mergeStat :: "Date \<Rightarrow> DailyStat option \<Rightarrow> DailyStat" where
  "mergeStat fetchedAt old =
     (case old of
        None \<Rightarrow> \<lparr> ds_firstSeenAt = fetchedAt, ds_lastSeenAt = fetchedAt \<rparr>
      | Some row \<Rightarrow>
          \<lparr> ds_firstSeenAt = min (ds_firstSeenAt row) fetchedAt,
            ds_lastSeenAt = max (ds_lastSeenAt row) fetchedAt \<rparr>)"

definition upsertStat :: "Date \<Rightarrow> int \<Rightarrow> int \<Rightarrow> ((int \<times> int) \<rightharpoonup> DailyStat) \<Rightarrow> ((int \<times> int) \<rightharpoonup> DailyStat)" where
  "upsertStat fetchedAt day routeId tbl =
     tbl((day, routeId) \<mapsto> mergeStat fetchedAt (tbl (day, routeId)))"

definition upsertRouteDailyStats :: "Date \<Rightarrow> Vehicle list \<Rightarrow> database \<Rightarrow> database" where
  "upsertRouteDailyStats fetchedAt vehicles db =
     (let byRoute =
            fold (\<lambda>vehicle m.
                    case v_route_id vehicle of
                      None \<Rightarrow> m
                    | Some routeId \<Rightarrow>
                        if routeId \<in> set (map fst m) then m else m @ [(routeId, fetchedAt)])
                 vehicles []
      in if length byRoute = 0 then db
         else
           let day = utcDay fetchedAt
           in db\<lparr> routeDailyStats :=
                     fold (upsertStat fetchedAt day) (map fst byRoute) (routeDailyStats db) \<rparr>)"

definition toSnapshot :: "Date \<Rightarrow> Vehicle \<Rightarrow> VehicleSnapshot" where
  "toSnapshot fetchedAt vehicle =
     \<lparr> vs_fetchedAt = fetchedAt, vs_vehicleId = v_id vehicle,
       vs_routeId = v_route_id vehicle, vs_tripId = v_trip_id vehicle,
       vs_latitude = v_latitude vehicle, vs_longitude = v_longitude vehicle,
       vs_timestamp = v_timestamp vehicle, vs_speed = v_speed vehicle,
       vs_vehicleType = v_vehicle_type vehicle,
       vs_bikeAccessible = v_bike_accessible vehicle,
       vs_wheelchairAccessible = v_wheelchair_accessible vehicle \<rparr>"

definition storeVehicleSnapshots :: "Date \<Rightarrow> Vehicle list \<Rightarrow> database \<Rightarrow> (error + unit) \<times> database" where
  "storeVehicleSnapshots fetchedAt vehicles db =
     (if length vehicles = 0 then (Inr (), db)
      else
        (case chunkedInsert insertSerial (map (toSnapshot fetchedAt) vehicles)
                (vehicleSnapshots db) of
           (r, tbl) \<Rightarrow> (r, db\<lparr> vehicleSnapshots := tbl \<rparr>)))"

section \<open>Geofence visit detector\<close>

text \<open>
  \<^verbatim>\<open>Math.atan2\<close> and \<^verbatim>\<open>haversineMeters\<close> on the reals. For latitudes between -90 and
  90 degrees the quantity \<open>a\<close> lies between 0 and 1, where the real square roots are
  the ones the code takes.
\<close>

definition atan2 :: "real \<Rightarrow> real \<Rightarrow> real" where
  "atan2 y x =
     (if x > 0 then arctan (y / x)
      else if x < 0 \<and> y \<ge> 0 then arctan (y / x) + pi
      else if x < 0 \<and> y < 0 then arctan (y / x) - pi
      else if y > 0 then pi / 2
      else if y < 0 then - pi / 2
      else 0)"

definition toRadians :: "real \<Rightarrow> real" where
  "toRadians v = (v * pi) / 180"

definition haversineMeters :: "real \<Rightarrow> real \<Rightarrow> real \<Rightarrow> real \<Rightarrow> real" where
  "haversineMeters lat1 lon1 lat2 lon2 =
     (let R = 6371000;
          dLat = toRadians (lat2 - lat1);
          dLon = toRadians (lon2 - lon1);
          a = sin (dLat / 2) * sin (dLat / 2)
              + cos (toRadians lat1) * cos (toRadians lat2) * sin (dLon / 2) * sin (dLon / 2);
          c = 2 * atan2 (sqrt a) (sqrt (1 - a))
      in R * c)"

text \<open>The object pushed onto \<^verbatim>\<open>events\<close> when a vehicle is found to have left a stop.\<close>

definition exitEvent ::
  "Date \<Rightarrow> Vehicle \<Rightarrow> int \<Rightarrow> Date \<Rightarrow> real \<Rightarrow> real \<Rightarrow> Stop \<Rightarrow> real \<Rightarrow> StopVisit" where
  "exitEvent fetchedAt vehicle routeId observedAt lat lon stop distance =
     \<lparr> sv_stopId = stop_id stop, sv_routeId = Some routeId,
       sv_tripId = v_trip_id vehicle, sv_vehicleId = v_id vehicle,
       sv_observedAt = observedAt, sv_fetchedAt = fetchedAt,
       sv_latitude = lat, sv_longitude = lon, sv_distanceMeters = distance \<rparr>"

text \<open>The body of the inner \<^verbatim>\<open>forEach\<close>: one stop of the vehicle's trip. The state is
  the containment set and the events pushed so far.\<close>

definition visitStop ::
  "(int \<rightharpoonup> Stop) \<Rightarrow> Date \<Rightarrow> Vehicle \<Rightarrow> int \<Rightarrow> Date \<Rightarrow> real \<Rightarrow> real \<Rightarrow> int \<Rightarrow>
   (int \<times> int) set \<times> StopVisit list \<Rightarrow> (int \<times> int) set \<times> StopVisit list" where
  "visitStop byId fetchedAt vehicle routeId observedAt lat lon stopId s =
     (case s of (inside, events) \<Rightarrow>
       (case byId stopId of
          None \<Rightarrow> (inside, events)
        | Some stop \<Rightarrow>
            (let key = (v_id vehicle, stop_id stop);
                 wasInside = (key \<in> inside)
             in if wasInside then
                  (let distance = haversineMeters lat lon (stop_lat stop) (stop_lon stop)
                   in if distance > STOP_EXIT_RADIUS_METERS then
                        (inside - {key},
                         events @
                           [exitEvent fetchedAt vehicle routeId observedAt lat lon stop
                              distance])
                      else (inside, events))
                else
                  (let distance = haversineMeters lat lon (stop_lat stop) (stop_lon stop)
                   in if distance > STOP_RADIUS_METERS then (inside, events)
                      else (insert key inside, events)))))"

text \<open>The body of the outer \<^verbatim>\<open>forEach\<close>: one vehicle of the cycle.\<close>

definition visitVehicle ::
  "engine \<Rightarrow> Date \<Rightarrow> Vehicle \<Rightarrow> (int \<times> int) set \<times> StopVisit list \<Rightarrow>
   (int \<times> int) set \<times> StopVisit list" where
  "visitVehicle eng fetchedAt vehicle s =
     (case (v_latitude vehicle, v_longitude vehicle, v_route_id vehicle) of
        (Some lat, Some lon, Some routeId) \<Rightarrow>
          (case v_trip_id vehicle of
             None \<Rightarrow> s
           | Some tripId \<Rightarrow>
               if tripId = [] then s
               else
                 (case (tripByIdCache eng tripId, stopIdsByTripId eng tripId) of
                    (Some tripInfo, Some allowedStops) \<Rightarrow>
                      if length allowedStops = 0 then s
                      else if ti_routeId tripInfo \<noteq> routeId then s
                      else
                        (let observedAt = (case v_timestamp vehicle of
                                             Some t \<Rightarrow> t
                                           | None \<Rightarrow> fetchedAt)
                         in fold (visitStop (stopById eng) fetchedAt vehicle routeId
                                    observedAt lat lon)
                                 allowedStops s)
                  | _ \<Rightarrow> s))
      | _ \<Rightarrow> s)"

text \<open>The two loops of \<^verbatim>\<open>recordStopVisits\<close>: the containment set after the cycle and
  the events of the cycle, in the order they were pushed.\<close>

definition detectVisits :: "engine \<Rightarrow> Date \<Rightarrow> Vehicle list \<Rightarrow> (int \<times> int) set \<times> StopVisit list" where
  "detectVisits eng fetchedAt vehicles =
     fold (visitVehicle eng fetchedAt) vehicles (stopInsideByVehicle eng, [])"

definition recordStopVisits ::
  "Date \<Rightarrow> Vehicle list \<Rightarrow> engine \<times> database \<Rightarrow> (error + unit) \<times> (engine \<times> database)" where
  "recordStopVisits fetchedAt vehicles s =
     (case s of (eng, db) \<Rightarrow>
        if length (stopsCache eng) = 0 then (Inr (), (eng, db))
        else
          (case detectVisits eng fetchedAt vehicles of
             (inside, events) \<Rightarrow>
               (let eng' = eng\<lparr> stopInsideByVehicle := inside \<rparr>
                in if length events = 0 then (Inr (), (eng', db))
                   else
                     (case chunkedInsert insertSerial events (stopVisits db) of
                        (r, tbl) \<Rightarrow> (r, (eng', db\<lparr> stopVisits := tbl \<rparr>))))))"

section \<open>Poll cycle\<close>

definition pollVehicles ::
  "provider \<Rightarrow> Date \<Rightarrow> engine \<times> database \<Rightarrow> (error + unit) \<times> (engine \<times> database)" where
  "pollVehicles provider fetchedAt s =
     (case fetchJson ''vehicles'' (vehiclesEndpoint provider) of
        Inl e \<Rightarrow> (Inl e, s)
      | Inr vehicles \<Rightarrow>
          (case s of (eng, db) \<Rightarrow>
             (andThen (onDb (storeVehicleSnapshots fetchedAt vehicles))
               (\<lambda>_. andThen (onDb (\<lambda>d. (Inr (), upsertRouteDailyStats fetchedAt vehicles d)))
               (\<lambda>_. recordStopVisits fetchedAt vehicles)))
             (eng\<lparr> latestVehiclesCache := vehicles,
                   latestVehiclesFetchedAt := Some fetchedAt \<rparr>, db)))"

section \<open>Proxy endpoint\<close>

datatype json =
  VehiclesJson "Vehicle list"
  | RoutesJson "Route list"
  | TripsJson "Trip list"
  | StopsJson "Stop list"
  | StopTimesJson "StopTime list"
  | ShapesJson "ShapePoint list"
  | LatestJson "Date option" "Vehicle list"

text \<open>The handler's answers: the 404, a JSON body, or the error it let escape.
  \<open>LatestJson\<close> is the object \<^verbatim>\<open>{ fetchedAt, vehicles }\<close>; the other constructors of
  \<open>json\<close> are the array the provider sent.\<close>

datatype proxyResponse =
  NotFound
  | ResponseJson json
  | Thrown error

definition fetchResource :: "provider \<Rightarrow> string \<Rightarrow> error + json" where
  "fetchResource provider resource =
     (if resource = ''vehicles'' then
        map_sum id VehiclesJson (fetchJson resource (vehiclesEndpoint provider))
      else if resource = ''routes'' then
        map_sum id RoutesJson (fetchJson resource (routesEndpoint provider))
      else if resource = ''trips'' then
        map_sum id TripsJson (fetchJson resource (tripsEndpoint provider))
      else if resource = ''stops'' then
        map_sum id StopsJson (fetchJson resource (stopsEndpoint provider))
      else if resource = ''stop_times'' then
        map_sum id StopTimesJson (fetchJson resource (stopTimesEndpoint provider))
      else
        map_sum id ShapesJson (fetchJson resource (shapesEndpoint provider)))"

definition proxyHandler :: "provider \<Rightarrow> engine \<Rightarrow> string \<Rightarrow> proxyResponse" where
  "proxyHandler provider eng resource =
     (let allowed = [''vehicles'', ''routes'', ''trips'', ''stops'', ''stop_times'', ''shapes'']
      in if resource \<notin> set allowed then NotFound
         else if resource = ''vehicles'' \<and> length (latestVehiclesCache eng) > 0 then
           ResponseJson (LatestJson (latestVehiclesFetchedAt eng) (latestVehiclesCache eng))
         else
           (case fetchResource provider resource of
              Inl e \<Rightarrow> Thrown e
            | Inr data \<Rightarrow> ResponseJson data))"

section \<open>Stop analytics endpoint\<close>

text \<open>
  The handler of \<^verbatim>\<open>GET /api/analytics/stop/:stopId\<close>. \<open>z\<close> is the zone of the process,
  \<open>today\<close> the \<^verbatim>\<open>new Date()\<close> the handler takes; \<open>stopIdParam\<close> is \<^verbatim>\<open>Number(params.stopId)\<close>, \<open>None\<close> for \<^verbatim>\<open>NaN\<close>. The two
  nested \<^verbatim>\<open>Map\<close>s are association lists in insertion order (prefixes \<open>dk_\<close>, \<open>b_\<close>,
  \<open>pt_\<close>, \<open>de_\<close>, \<open>ab_\<close> for the objects the handler builds). The \<^verbatim>\<open>routes\<close> array of the
  body is sorted with \<^verbatim>\<open>localeCompare\<close>, whose order belongs to the runtime's locale;
  the model leaves that field out.
\<close>

record DayKey =
  dk_key :: int
  dk_isToday :: bool

record Bucket =
  b_times :: "real list"
  b_predicted :: bool

record Point =
  pt_routeId :: int
  pt_minutes :: "real list"
  pt_predicted :: bool

record DayEntry =
  de_date :: int
  de_isToday :: bool
  de_points :: "Point list"

record AnalyticsBody =
  ab_stop :: StopRow
  ab_days :: "DayEntry list"

datatype analyticsResponse =
  InvalidStopId
  | StopNotFound
  | AnalyticsJson AnalyticsBody

definition dayKeysOf :: "zone \<Rightarrow> Date \<Rightarrow> DayKey list" where
  "dayKeysOf z today =
     map (\<lambda>i. \<lparr> dk_key = localDateKey z (minusDays z today i), dk_isToday = (i = 0) \<rparr>)
         [6, 5, 4, 3, 2, 1, 0]"

text \<open>The query on \<^verbatim>\<open>stop_visits\<close>: the route and the observed time of the rows of the
  stop that are not older than the cutoff and have a route.\<close>

definition selectVisits :: "database \<Rightarrow> int \<Rightarrow> Date \<Rightarrow> (int \<times> Date) list" where
  "selectVisits db stopId cutoff =
     List.map_filter
       (\<lambda>row. case sv_routeId row of
                 None \<Rightarrow> None
               | Some routeId \<Rightarrow>
                   if sv_stopId row = stopId \<and> sv_observedAt row \<ge> cutoff
                   then Some (routeId, sv_observedAt row) else None)
       (stopVisits db)"

definition addVisit ::
  "zone \<Rightarrow> int list \<Rightarrow> int \<times> Date \<Rightarrow> (int \<times> (int \<times> Bucket) list) list \<Rightarrow>
   (int \<times> (int \<times> Bucket) list) list" where
  "addVisit z daySet row visitsByDay =
     (case row of (routeId, observedAt) \<Rightarrow>
        (let dayKey = localDateKey z observedAt
         in if dayKey \<notin> set daySet then visitsByDay
            else
              (let minutes = timeToMinutes z observedAt;
                   dayMap = (case map_of visitsByDay dayKey of None \<Rightarrow> [] | Some m \<Rightarrow> m);
                   bucket = (case map_of dayMap routeId of
                               None \<Rightarrow> \<lparr> b_times = [], b_predicted = False \<rparr>
                             | Some b \<Rightarrow> b)
               in AList.update dayKey
                    (AList.update routeId
                       (bucket\<lparr> b_times := b_times bucket @ [minutes] \<rparr>) dayMap)
                    visitsByDay)))"

definition addHistory ::
  "(int \<times> (int \<times> Bucket) list) list \<Rightarrow> DayKey \<Rightarrow> (int \<times> real list list) list \<Rightarrow>
   (int \<times> real list list) list" where
  "addHistory visitsByDay day historyByRoute =
     (if dk_isToday day then historyByRoute
      else
        (case map_of visitsByDay (dk_key day) of
           None \<Rightarrow> historyByRoute
         | Some dayMap \<Rightarrow>
             fold (\<lambda>entry h.
                     case entry of (routeId, bucket) \<Rightarrow>
                       AList.update routeId
                         ((case map_of h routeId of None \<Rightarrow> [] | Some days \<Rightarrow> days)
                            @ [sort (b_times bucket)])
                         h)
                  dayMap historyByRoute))"

definition observedPoints :: "(int \<times> (int \<times> Bucket) list) list \<Rightarrow> DayKey \<Rightarrow> Point list" where
  "observedPoints visitsByDay day =
     (case map_of visitsByDay (dk_key day) of
        None \<Rightarrow> []
      | Some dayMap \<Rightarrow>
          map (\<lambda>entry. case entry of (routeId, bucket) \<Rightarrow>
                 \<lparr> pt_routeId = routeId, pt_minutes = sort (b_times bucket),
                   pt_predicted = False \<rparr>)
              (filter (\<lambda>entry. length (b_times (snd entry)) \<noteq> 0) dayMap))"

definition futurePoints :: "(int \<times> real list) list \<Rightarrow> real \<Rightarrow> Point list" where
  "futurePoints predictedByRoute nowMinutes =
     List.map_filter
       (\<lambda>entry. case entry of (routeId, minutes) \<Rightarrow>
          (let future = filter (\<lambda>m. m > nowMinutes) minutes
           in if length future = 0 then None
              else Some \<lparr> pt_routeId = routeId, pt_minutes = future, pt_predicted = True \<rparr>))
       predictedByRoute"

definition stopAnalytics :: "zone \<Rightarrow> Date \<Rightarrow> database \<Rightarrow> int option \<Rightarrow> analyticsResponse" where
  "stopAnalytics z today db stopIdParam =
     (case stopIdParam of
        None \<Rightarrow> InvalidStopId
      | Some stopId \<Rightarrow>
          (let stop = take 1 (filter (\<lambda>row. sr_stopId row = stopId) (stops db))
           in (case stop of
                 [] \<Rightarrow> StopNotFound
               | stop0 # _ \<Rightarrow>
                   (let dayKeys = dayKeysOf z today;
                        cutoff = minusDays z today 6;
                        nowMinutes = timeToMinutes z today;
                        visits = selectVisits db stopId cutoff;
                        routeInfoMap = newMap (map (\<lambda>row. (rr_routeId row, row)) (routes db));
                        knownVisits = filter (\<lambda>row. routeInfoMap (fst row) \<noteq> None) visits;
                        daySet = map dk_key dayKeys;
                        visitsByDay = fold (addVisit z daySet) knownVisits [];
                        historyByRoute = fold (addHistory visitsByDay) dayKeys [];
                        predictedByRoute =
                          map (\<lambda>entry. (fst entry, buildPredictedTimes (snd entry)))
                              historyByRoute;
                        days =
                          map (\<lambda>day.
                                 \<lparr> de_date = dk_key day, de_isToday = dk_isToday day,
                                   de_points =
                                     (if dk_isToday day
                                      then observedPoints visitsByDay day
                                             @ futurePoints predictedByRoute nowMinutes
                                      else observedPoints visitsByDay day) \<rparr>)
                              dayKeys
                    in AnalyticsJson \<lparr> ab_stop = stop0, ab_days = days \<rparr>))))"

section \<open>Successive cycles\<close>

text \<open>
  The poll loop calls \<^verbatim>\<open>pollVehicles\<close> once per cycle, each with its own fetch time and
  vehicle list. For statements about several cycles, the two steps of a cycle that
  the properties below concern are iterated over a list of cycles.
\<close>

definition upsertCycles :: "(Date \<times> Vehicle list) list \<Rightarrow> database \<Rightarrow> database" where
  "upsertCycles cycles db =
     fold (\<lambda>c d. upsertRouteDailyStats (fst c) (snd c) d) cycles db"

definition recordCycles :: "(Date \<times> Vehicle list) list \<Rightarrow> engine \<times> database \<Rightarrow> engine \<times> database" where
  "recordCycles cycles s =
     fold (\<lambda>c s'. snd (recordStopVisits (fst c) (snd c) s')) cycles s"

text \<open>The rows of \<^verbatim>\<open>stop_visits\<close> of one vehicle at one stop.\<close>

definition visitsOf :: "int \<Rightarrow> int \<Rightarrow> StopVisit list \<Rightarrow> StopVisit list" where
  "visitsOf vehicleId stopId rows =
     filter (\<lambda>e. sv_vehicleId e = vehicleId \<and> sv_stopId e = stopId) rows"

section \<open>Notions used in the statements\<close>

text \<open>
  The rows that one call of \<open>recordStopVisits\<close> adds to \<^verbatim>\<open>stop_visits\<close> (the events it
  emits), and the containment set it leaves.
\<close>

definition emitted :: "Date \<Rightarrow> Vehicle list \<Rightarrow> engine \<times> database \<Rightarrow> StopVisit list" where
  "emitted fetchedAt vehicles s =
     drop (length (stopVisits (snd s)))
          (stopVisits (snd (snd (recordStopVisits fetchedAt vehicles s))))"

definition containment :: "Date \<Rightarrow> Vehicle list \<Rightarrow> engine \<times> database \<Rightarrow> (int \<times> int) set" where
  "containment fetchedAt vehicles s =
     stopInsideByVehicle (fst (snd (recordStopVisits fetchedAt vehicles s)))"

text \<open>
  \<open>stopById\<close> is assigned in two places, \<open>loadStopsCache\<close> and \<open>buildStaticCaches\<close>,
  both times as the lookup of the list assigned to \<open>stopsCache\<close> in the same breath.
\<close>

definition cachesCoherent :: "engine \<Rightarrow> bool" where
  "cachesCoherent eng \<longleftrightarrow>
     stopById eng = newMap (map (\<lambda>stop. (stop_id stop, stop)) (stopsCache eng))"

text \<open>
  The stops the detector checks for a vehicle: the stop set of its trip when the
  vehicle has coordinates and a route, a non-empty trip identifier known to both
  caches, and the cached route of the trip is the reported one; none otherwise.
\<close>

definition stopsChecked :: "engine \<Rightarrow> Vehicle \<Rightarrow> int list" where
  "stopsChecked eng vehicle =
     (case (v_latitude vehicle, v_longitude vehicle, v_route_id vehicle, v_trip_id vehicle) of
        (Some lat, Some lon, Some routeId, Some tripId) \<Rightarrow>
          (case (tripByIdCache eng tripId, stopIdsByTripId eng tripId) of
             (Some tripInfo, Some allowedStops) \<Rightarrow>
               if tripId \<noteq> [] \<and> ti_routeId tripInfo = routeId then allowedStops else []
           | _ \<Rightarrow> [])
      | _ \<Rightarrow> [])"

text \<open>The distance the detector computes between a vehicle and a stop.\<close>

definition distanceTo :: "Stop \<Rightarrow> Vehicle \<Rightarrow> real option" where
  "distanceTo stop vehicle =
     (case (v_latitude vehicle, v_longitude vehicle) of
        (Some lat, Some lon) \<Rightarrow> Some (haversineMeters lat lon (stop_lat stop) (stop_lon stop))
      | _ \<Rightarrow> None)"

text \<open>
  The vehicles of claim C2, in its words: no trip identifier, a trip unknown to the
  cache, a trip with an empty stop set, or a cached trip route that differs from the
  reported route.
\<close>

definition skipped :: "engine \<Rightarrow> Vehicle \<Rightarrow> bool" where
  "skipped eng vehicle =
     (case v_trip_id vehicle of
        None \<Rightarrow> True
      | Some tripId \<Rightarrow>
          tripId = []
          \<or> (case tripByIdCache eng tripId of
                None \<Rightarrow> True
              | Some tripInfo \<Rightarrow> v_route_id vehicle \<noteq> Some (ti_routeId tripInfo))
          \<or> (case stopIdsByTripId eng tripId of
                None \<Rightarrow> True
              | Some allowedStops \<Rightarrow> allowedStops = []))"

text \<open>
  The detector as the specification words it, for one (vehicle, stop) pair: a pair
  that is inside goes outside and emits a visit when the distance exceeds the exit
  radius; a pair that is outside goes inside when the distance is within the entry
  radius. The state is whether the pair is inside, and the visits of the pair so far.
\<close>

definition pairCheck :: "real \<Rightarrow> StopVisit \<Rightarrow> bool \<times> StopVisit list \<Rightarrow> bool \<times> StopVisit list" where
  "pairCheck distance event st =
     (case st of (wasInside, events) \<Rightarrow>
        if wasInside then
          (if distance > STOP_EXIT_RADIUS_METERS then (False, events @ [event])
           else (True, events))
        else
          (if distance > STOP_RADIUS_METERS then (False, events) else (True, events)))"

text \<open>One report of the vehicle, seen from the pair: a check when the stop is among
  those checked for the report and is a cached stop, nothing otherwise.\<close>

definition pairVisit ::
  "engine \<Rightarrow> Date \<Rightarrow> Vehicle \<Rightarrow> int \<Rightarrow> bool \<times> StopVisit list \<Rightarrow> bool \<times> StopVisit list" where
  "pairVisit eng fetchedAt vehicle stopId st =
     (if stopId \<in> set (stopsChecked eng vehicle) then
        (case (stopById eng stopId, v_latitude vehicle, v_longitude vehicle,
               v_route_id vehicle) of
           (Some stop, Some lat, Some lon, Some routeId) \<Rightarrow>
             pairCheck (haversineMeters lat lon (stop_lat stop) (stop_lon stop))
               (exitEvent fetchedAt vehicle routeId
                  (case v_timestamp vehicle of Some t \<Rightarrow> t | None \<Rightarrow> fetchedAt)
                  lat lon stop (haversineMeters lat lon (stop_lat stop) (stop_lon stop)))
               st
         | _ \<Rightarrow> st)
      else st)"

text \<open>What the detector's state holds about one pair.\<close>

definition pairView :: "int \<Rightarrow> int \<Rightarrow> (int \<times> int) set \<times> StopVisit list \<Rightarrow> bool \<times> StopVisit list" where
  "pairView vehicleId stopId s =
     (case s of (inside, events) \<Rightarrow>
        ((vehicleId, stopId) \<in> inside, visitsOf vehicleId stopId events))"

section \<open>What a failed refresh leaves behind\<close>

text \<open>
  The part of the state that a failure of \<open>refreshStaticData\<close> cannot have touched:
  every module variable but the stop cache and the stop lookup, and the tables that
  are not reference tables. The stop cache and lookup are as before, or they are the
  reload of the \<^verbatim>\<open>stops\<close> table.
\<close>

definition keptOnFailure :: "engine \<times> database \<Rightarrow> engine \<times> database \<Rightarrow> bool" where
  "keptOnFailure s s' \<longleftrightarrow>
     tripByIdCache (fst s') = tripByIdCache (fst s)
     \<and> stopIdsByTripId (fst s') = stopIdsByTripId (fst s)
     \<and> stopInsideByVehicle (fst s') = stopInsideByVehicle (fst s)
     \<and> latestVehiclesCache (fst s') = latestVehiclesCache (fst s)
     \<and> latestVehiclesFetchedAt (fst s') = latestVehiclesFetchedAt (fst s)
     \<and> vehicleSnapshots (snd s') = vehicleSnapshots (snd s)
     \<and> stopVisits (snd s') = stopVisits (snd s)
     \<and> routeDailyStats (snd s') = routeDailyStats (snd s)
     \<and> (stopsCache (fst s') = stopsCache (fst s) \<and> stopById (fst s') = stopById (fst s)
        \<or> stopsCache (fst s') = map fromStopRow (stops (snd s'))
          \<and> stopById (fst s')
              = newMap (map (\<lambda>stop. (stop_id stop, stop)) (stopsCache (fst s'))))"

section \<open>The analytics of a stop, in the specification's words\<close>

text \<open>
  The days of the window: day \<open>i\<close> is the local date of the instant that lies \<open>i\<close>
  calendar days before now at the same local time, day 0 being today. The window
  opens at the cutoff, the instant of day 6.
\<close>

definition windowDay :: "zone \<Rightarrow> Date \<Rightarrow> int \<Rightarrow> int" where
  "windowDay z today i = localDateKey z (minusDays z today i)"

definition windowStart :: "zone \<Rightarrow> Date \<Rightarrow> Date" where
  "windowStart z today = minusDays z today 6"

text \<open>
  The runs of a route at the stop on one local day of the window: the times of day, in
  minutes, of the visits of the stop by a route that the reference table still knows,
  observed on that day and not before the window opens.
\<close>

definition knownRoute :: "database \<Rightarrow> int \<Rightarrow> bool" where
  "knownRoute db routeId \<longleftrightarrow> routeId \<in> set (map rr_routeId (routes db))"

definition runTimes :: "zone \<Rightarrow> Date \<Rightarrow> database \<Rightarrow> int \<Rightarrow> int \<Rightarrow> int \<Rightarrow> real list" where
  "runTimes z today db stopId day routeId =
     (if knownRoute db routeId then
        map (\<lambda>row. timeToMinutes z (sv_observedAt row))
          (filter (\<lambda>row. sv_stopId row = stopId \<and> sv_routeId row = Some routeId
                         \<and> sv_observedAt row \<ge> windowStart z today
                         \<and> localDateKey z (sv_observedAt row) = day)
                  (stopVisits db))
      else [])"

text \<open>The historical sample sequences of a route: the sorted runs of each of the six
  prior days that has any, oldest day first.\<close>

definition historyOf :: "zone \<Rightarrow> Date \<Rightarrow> database \<Rightarrow> int \<Rightarrow> int \<Rightarrow> real list list" where
  "historyOf z today db stopId routeId =
     concat (map (\<lambda>i. let runs = runTimes z today db stopId (windowDay z today i) routeId
                      in if runs = [] then [] else [sort runs])
                 [6, 5, 4, 3, 2, 1])"

text \<open>The points of the day marked as today in a response.\<close>

definition todayPoints :: "analyticsResponse \<Rightarrow> Point list" where
  "todayPoints r =
     (case r of
        AnalyticsJson b \<Rightarrow> concat (map de_points (filter de_isToday (ab_days b)))
      | _ \<Rightarrow> [])"

text \<open>Readings of the two nested maps of the handler: the times collected for a day
  and a route, and the history collected for a route.\<close>

definition timesOf :: "(int \<times> (int \<times> Bucket) list) list \<Rightarrow> int \<Rightarrow> int \<Rightarrow> real list" where
  "timesOf visitsByDay day routeId =
     (case map_of visitsByDay day of
        None \<Rightarrow> []
      | Some dayMap \<Rightarrow>
          (case map_of dayMap routeId of None \<Rightarrow> [] | Some bucket \<Rightarrow> b_times bucket))"

definition histOf :: "(int \<times> real list list) list \<Rightarrow> int \<Rightarrow> real list list" where
  "histOf historyByRoute routeId =
     (case map_of historyByRoute routeId of None \<Rightarrow> [] | Some days \<Rightarrow> days)"

text \<open>What the handler's maps satisfy while they are filled: keys occur once, and no
  bucket is empty.\<close>

definition bucketsFilled :: "(int \<times> (int \<times> Bucket) list) list \<Rightarrow> bool" where
  "bucketsFilled visitsByDay \<longleftrightarrow>
     distinct (map fst visitsByDay)
     \<and> list_all (\<lambda>entry. distinct (map fst (snd entry))
                        \<and> list_all (\<lambda>e. b_times (snd e) \<noteq> []) (snd entry))
         visitsByDay"

section \<open>Example data\<close>

text \<open>The module state at start-up, an empty database, and a vehicle report with the
  fields that the detector reads; the concrete instances below are built from them.\<close>

definition initialEngine :: engine where
  "initialEngine =
     \<lparr> stopsCache = [], stopById = Map.empty, stopInsideByVehicle = {},
       tripByIdCache = Map.empty, stopIdsByTripId = Map.empty,
       latestVehiclesCache = [], latestVehiclesFetchedAt = None \<rparr>"

definition emptyDatabase :: database where
  "emptyDatabase =
     \<lparr> routes = [], trips = [], stops = [], stopTimes = [], shapes = [],
       vehicleSnapshots = [], stopVisits = [], routeDailyStats = Map.empty \<rparr>"

definition vehicleAt :: "int \<Rightarrow> int \<Rightarrow> string \<Rightarrow> real \<Rightarrow> real \<Rightarrow> Vehicle" where
  "vehicleAt vehicleId routeId tripId lat lon =
     \<lparr> v_id = vehicleId, v_label = [], v_latitude = Some lat, v_longitude = Some lon,
       v_timestamp = None, v_speed = None, v_route_id = Some routeId,
       v_trip_id = Some tripId, v_vehicle_type = None, v_bike_accessible = None,
       v_wheelchair_accessible = None \<rparr>"

definition okResponse :: "'a \<Rightarrow> error + 'a HttpResponse" where
  "okResponse data = Inr \<lparr> ok = True, status = 200, body = data \<rparr>"

definition unavailable :: "'a \<Rightarrow> error + 'a HttpResponse" where
  "unavailable data = Inr \<lparr> ok = False, status = 503, body = data \<rparr>"

definition providerOf ::
  "Vehicle list \<Rightarrow> Trip list \<Rightarrow> Stop list \<Rightarrow> StopTime list \<Rightarrow> provider" where
  "providerOf vehiclesData tripsData stopsData stopTimesData =
     \<lparr> vehiclesEndpoint = okResponse vehiclesData, routesEndpoint = okResponse [],
       tripsEndpoint = okResponse tripsData, stopsEndpoint = okResponse stopsData,
       stopTimesEndpoint = okResponse stopTimesData, shapesEndpoint = okResponse [] \<rparr>"

definition tripOf :: "string \<Rightarrow> int \<Rightarrow> Trip" where
  "tripOf tripId routeId =
     \<lparr> t_route_id = routeId, t_trip_id = tripId, t_trip_headsign = [], t_direction_id = 0,
       t_block_id = 0, t_shape_id = [] \<rparr>"

definition stopAt :: "int \<Rightarrow> real \<Rightarrow> real \<Rightarrow> Stop" where
  "stopAt stopId lat lon =
     \<lparr> stop_id = stopId, stop_name = [], stop_lat = lat, stop_lon = lon, location_type = 0,
       stop_code = None \<rparr>"

definition stopTimeOf :: "string \<Rightarrow> int \<Rightarrow> int \<Rightarrow> StopTime" where
  "stopTimeOf tripId stopId stopSequence =
     \<lparr> st_trip_id = tripId, st_stop_id = stopId, st_stop_sequence = stopSequence,
       st_arrival_time = None, st_departure_time = None, st_stop_headsign = None,
       st_pickup_type = None, st_drop_off_type = None, st_shape_dist_traveled = None,
       st_timepoint = None \<rparr>"

text \<open>The longitude, in degrees, of the point of the equator that lies \<open>d\<close> metres
  from the point at longitude 0.\<close>

definition lonAt :: "real \<Rightarrow> real" where
  "lonAt d = d * 180 / (6371000 * pi)"

text \<open>The caches after a refresh that delivered one trip of route 7 with one stop,
  number 42, at latitude 0 and longitude 0.\<close>

definition exampleEngine :: engine where
  "exampleEngine =
     buildStaticCaches [tripOf ''T'' 7] [stopAt 42 0 0] [stopTimeOf ''T'' 42 1] initialEngine"

text \<open>
  Two zones: one with the same offset throughout, and one that changes its offset once,
  from \<open>before\<close> to \<open>after\<close> at the instant \<open>change\<close>. A local time that the clock
  shows twice or never is read with the offset before the change.
\<close>

definition fixedZone :: "int \<Rightarrow> zone" where
  "fixedZone tz t isUTC = tz"

definition switchZone :: "int \<Rightarrow> int \<Rightarrow> Date \<Rightarrow> zone" where
  "switchZone before after change t isUTC =
     (if isUTC then (if t < change then before else after)
      else (if t < change + max before after then before else after))"

text \<open>
  The scenario of the specification: stop 42, route 7, visits observed yesterday at
  08:01 and 08:16 and today at 08:03, the time now 08:10, in a zone without offset.
  Today is local day 10; times are in milliseconds.
\<close>

definition visitAt :: "int \<Rightarrow> int \<Rightarrow> Date \<Rightarrow> StopVisit" where
  "visitAt stopId routeId observedAt =
     \<lparr> sv_stopId = stopId, sv_routeId = Some routeId, sv_tripId = None, sv_vehicleId = 1,
       sv_observedAt = observedAt, sv_fetchedAt = observedAt, sv_latitude = 0,
       sv_longitude = 0, sv_distanceMeters = 65 \<rparr>"

definition routeRowOf :: "int \<Rightarrow> RouteRow" where
  "routeRowOf routeId =
     \<lparr> rr_routeId = routeId, rr_agencyId = 1, rr_routeShortName = [], rr_routeLongName = [],
       rr_routeColor = [], rr_routeType = 0, rr_routeDesc = [], rr_updatedAt = 0 \<rparr>"

definition scenarioNow :: Date where
  "scenarioNow = 10 * 86400000 + 8 * 3600000 + 10 * 60000"

definition scenarioDatabase :: database where
  "scenarioDatabase =
     emptyDatabase
       \<lparr> routes := [routeRowOf 7],
         stops := [toStopRow (stopAt 42 0 0)],
         stopVisits :=
           [visitAt 42 7 (9 * 86400000 + 8 * 3600000 + 1 * 60000),
            visitAt 42 7 (9 * 86400000 + 8 * 3600000 + 16 * 60000),
            visitAt 42 7 (10 * 86400000 + 8 * 3600000 + 3 * 60000)] \<rparr>"

text \<open>
  A week with a change of offset in it. The zone is three hours ahead of UTC until
  2024-10-27 01:00 UTC and two hours from then on. Now is 2024-10-30 06:10 UTC, 08:10 on
  the clock; six calendar days before at 08:10 on the clock is 2024-10-24 05:10 UTC.
  Route 7 was seen at stop 42 on 2024-10-24 at 05:30 UTC (08:30 on the clock), on
  2024-10-29 at 07:00 UTC (09:00), and today at 06:03 UTC (08:03). The local days are
  numbered 20020 to 20026.
\<close>

definition autumnZone :: zone where
  "autumnZone = switchZone 10800000 7200000 1729990800000"

definition autumnNow :: Date where
  "autumnNow = 1730268600000"

definition autumnDatabase :: database where
  "autumnDatabase =
     emptyDatabase
       \<lparr> routes := [routeRowOf 7],
         stops := [toStopRow (stopAt 42 0 0)],
         stopVisits :=
           [visitAt 42 7 1729747800000,
            visitAt 42 7 1730185200000,
            visitAt 42 7 1730268180000] \<rparr>"

section \<open>Properties of interval selection and of the merge\<close>

lemma getHours_range: "0 \<le> getHours tz d \<and> getHours tz d < 24"
  by (simp add: getHours_def)

lemma getHours_of_day_time:
  assumes "(now + tz) mod 86400000 = h * 3600000 + r" and "0 \<le> h" and "h < 24"
    and "0 \<le> r" and "r < 3600000"
  shows "getHours tz now = h"
proof -
  define q where "q = (now + tz) div 86400000"
  have "now + tz = q * 86400000 + (h * 3600000 + r)"
    using assms(1) div_mult_mod_eq [of "now + tz" 86400000] by (simp add: q_def)
  then have e: "now + tz = r + (q * 24 + h) * 3600000"
    by (simp add: algebra_simps)
  have "(now + tz) div 3600000 = q * 24 + h"
    unfolding e using assms(4,5) by simp
  then show ?thesis
    using assms(2,3) by (simp add: getHours_def)
qed

text \<open>
  Claim C9. Whenever the local hour of the day lies in the day window from 06:00 up to
  24:00, \<open>getPollIntervalMs\<close> returns the short interval of 15000 ms, and otherwise the
  long interval of 60000 ms; at local time 07:00 it is the day interval and at 02:00
  the night interval.
\<close>

theorem poll_interval_selection:
  "(6 \<le> getHours tz now \<and> getHours tz now < 24 \<longrightarrow> getPollIntervalMs tz now = 15000)
   \<and> (\<not> (6 \<le> getHours tz now \<and> getHours tz now < 24) \<longrightarrow> getPollIntervalMs tz now = 60000)
   \<and> ((now + tz) mod 86400000 = 7 * 3600000 \<longrightarrow>
        getPollIntervalMs tz now = POLL_DAY_INTERVAL_MS)
   \<and> ((now + tz) mod 86400000 = 2 * 3600000 \<longrightarrow>
        getPollIntervalMs tz now = POLL_NIGHT_INTERVAL_MS)"
proof -
  have day: "getHours tz now = 7" if "(now + tz) mod 86400000 = 7 * 3600000"
    using getHours_of_day_time [of now tz 7 0] that by simp
  have night: "getHours tz now = 2" if "(now + tz) mod 86400000 = 2 * 3600000"
    using getHours_of_day_time [of now tz 2 0] that by simp
  show ?thesis
    using day night
    by (auto simp add: getPollIntervalMs_def Let_def DAY_START_HOUR_def DAY_END_HOUR_def
        POLL_DAY_INTERVAL_MS_def POLL_NIGHT_INTERVAL_MS_def)
qed

theorem poll_interval_selection_witness:
  "getHours 7200000 1728018000000 = 7
   \<and> getPollIntervalMs 7200000 1728018000000 = 15000
   \<and> getHours 7200000 1728000000000 = 2
   \<and> getPollIntervalMs 7200000 1728000000000 = 60000
   \<and> getPollIntervalMs 0 (23 * 3600000 + 3599999) = 15000
   \<and> getPollIntervalMs 0 (5 * 3600000 + 3599999) = 60000"
  using poll_interval_selection [of 7200000 1728018000000]
    poll_interval_selection [of 7200000 1728000000000]
    poll_interval_selection [of 0 "23 * 3600000 + 3599999"]
    poll_interval_selection [of 0 "5 * 3600000 + 3599999"]
  by (simp add: getHours_def)

lemma percentile_single: "percentile [x] p = Some x"
  by (simp add: percentile_def)

lemma percentile_half:
  assumes "samples \<noteq> []"
  shows "percentile samples (1/2) = Some (spec_median samples)"
proof -
  define s where "s = sort samples"
  define n where "n = length s"
  define idx where "idx = (real n - 1) / 2"
  have n: "n = length samples" "0 < n" using assms by (simp_all add: n_def s_def)
  have "max 0 (min (real n - 1) (1/2 * (real n - 1))) = idx"
    using n(2) by (simp add: max_def min_def idx_def)
  then have P: "percentile samples (1/2) =
      (if \<lfloor>idx\<rfloor> = \<lceil>idx\<rceil> then Some (s ! nat \<lfloor>idx\<rfloor>)
       else Some (s ! nat \<lfloor>idx\<rfloor> + (s ! nat \<lceil>idx\<rceil> - s ! nat \<lfloor>idx\<rfloor>) * (idx - of_int \<lfloor>idx\<rfloor>)))"
    using assms by (simp add: percentile_def Let_def s_def [symmetric] n_def [symmetric])
  have M: "spec_median samples =
      (if odd n then s ! ((n - 1) div 2) else (s ! (n div 2 - 1) + s ! (n div 2)) / 2)"
    by (simp add: spec_median_def Let_def s_def [symmetric] n_def [symmetric])
  show ?thesis
  proof (cases "odd n")
    case True
    then obtain k where k: "n = 2 * k + 1" by (auto elim: oddE)
    have i: "idx = real k" using k by (simp add: idx_def)
    show ?thesis unfolding P M i using True k by simp
  next
    case False
    then obtain k where k: "n = 2 * k" by (auto elim: evenE)
    with n(2) have kpos: "0 < k" by simp
    have i: "idx = real k - 1/2" using k by (simp add: idx_def)
    have fl: "\<lfloor>real k - 1/2\<rfloor> = int k - 1" by linarith
    have ce: "\<lceil>real k - 1/2\<rceil> = int k" by linarith
    have nk: "nat (int k - 1) = k - 1" by simp
    show ?thesis unfolding P M i fl ce nk using False k kpos
      by (simp add: field_simps)
  qed
qed


lemma foldl_max_length:
  "foldl (\<lambda>acc v. max acc (length v)) a xs = Max (set (a # map length xs))"
proof -
  have "foldl (\<lambda>acc v. max acc (length v)) a xs = fold max (map length xs) a"
    by (induction xs arbitrary: a) (simp_all add: max.commute)
  then show ?thesis by (simp only: Max.set_eq_fold)
qed

lemma fold_collect:
  assumes "\<And>i acc. i \<in> set js \<Longrightarrow> step i acc = acc @ [g i]"
  shows "fold step js acc = acc @ map g js"
  using assms by (induction js arbitrary: acc) simp_all

lemma lt_Max_lengths:
  "i < Max (set (0 # map length xss)) \<longleftrightarrow> (\<exists>xs \<in> set xss. i < length xs)"
proof -
  have "i < Max (set (0 # map length xss)) \<longleftrightarrow> (\<exists>a \<in> set (0 # map length xss). i < a)"
    by (rule Max_gr_iff) simp_all
  then show ?thesis by auto
qed

lemma buildPredictedTimes_spec:
  "buildPredictedTimes dayValues = spec_positional_merge dayValues"
proof (cases "dayValues = []")
  case True
  then show ?thesis
    by (simp add: buildPredictedTimes_def spec_positional_merge_def)
next
  case False
  define sortedDays where "sortedDays = map (\<lambda>v. sort v) dayValues"
  define m where "m = Max (set (0 # map length dayValues))"
  define samples where
    "samples i = map (\<lambda>v. sort v ! i) (filter (\<lambda>v. i < length v) dayValues)" for i
  have mc: "foldl (\<lambda>acc v. max acc (length v)) 0 sortedDays = m"
    by (simp add: foldl_max_length sortedDays_def m_def o_def)
  have smp: "map (\<lambda>v. v ! i) (filter (\<lambda>v. i < length v) sortedDays) = samples i" for i
    by (simp add: sortedDays_def samples_def filter_map o_def)
  have smp0: "filter (\<lambda>v. i < length v) sortedDays = [] \<longleftrightarrow> samples i = []" for i
    using smp [of i, symmetric] by simp
  have ne: "samples i \<noteq> []" if "i < m" for i
  proof -
    from that obtain xs where "xs \<in> set dayValues" "i < length xs"
      unfolding m_def lt_Max_lengths by blast
    then show ?thesis by (auto simp add: samples_def filter_empty_conv)
  qed
  have step: "(let smp = samples i
               in if length smp = 0 then acc
                  else (case percentile smp (1/2) of None \<Rightarrow> acc | Some p50 \<Rightarrow> acc @ [p50]))
              = acc @ [spec_median (samples i)]"
    if "i \<in> set [0..<m]" for i acc
    using that ne [of i] percentile_half [of "samples i"] by (simp add: Let_def)
  have "buildPredictedTimes dayValues =
        fold (\<lambda>i predicted.
                let smp = samples i
                in if length smp = 0 then predicted
                   else (case percentile smp (1/2) of
                           None \<Rightarrow> predicted | Some p50 \<Rightarrow> predicted @ [p50]))
             [0..<m] []"
    using False
    by (simp add: buildPredictedTimes_def Let_def sortedDays_def [symmetric] mc smp smp0 cong: if_cong)
  also have "\<dots> = [] @ map (\<lambda>i. spec_median (samples i)) [0..<m]"
    by (rule fold_collect) (rule step)
  finally show ?thesis
    by (simp add: spec_positional_merge_def m_def samples_def)
qed

text \<open>
  Claim C4. \<open>buildPredictedTimes\<close> is the positional percentile merge of the
  specification: each day's times sorted ascending, and for each run index the
  interpolated 50th percentile of that run's time over the days that have more runs
  than the index. On \<open>[[5, 20], [7, 18], [6, 22]]\<close> it yields \<open>[6, 20]\<close>, and the
  percentile of a single sample is that sample.
\<close>

theorem positional_percentile_merge:
  "buildPredictedTimes dayValues = spec_positional_merge dayValues
   \<and> buildPredictedTimes [[5, 20], [7, 18], [6, 22]] = [6, 20]
   \<and> percentile [x] p = Some x"
proof -
  have "buildPredictedTimes [[5, 20], [7, 18], [6, 22]] = [6, 20]"
    by code_simp
  then show ?thesis
    using buildPredictedTimes_spec percentile_single by blast
qed

section \<open>Route daily statistics\<close>

lemma upsertStat_apply:
  "upsertStat f day r tbl k = (if k = (day, r) then Some (mergeStat f (tbl k)) else tbl k)"
  by (simp add: upsertStat_def)

lemma mergeStat_idem: "mergeStat f (Some (mergeStat f old)) = mergeStat f old"
  by (cases old) (simp_all add: mergeStat_def)

lemma fold_upsertStat_apply:
  "fold (upsertStat f day) rs tbl k =
     (if k \<in> (\<lambda>r. (day, r)) ` set rs then Some (mergeStat f (tbl k)) else tbl k)"
proof (induction rs arbitrary: tbl)
  case Nil
  then show ?case by simp
next
  case (Cons r rs)
  have "fold (upsertStat f day) (r # rs) tbl k
        = fold (upsertStat f day) rs (upsertStat f day r tbl) k"
    by simp
  also have "\<dots> = (if k \<in> (\<lambda>r. (day, r)) ` set rs
                    then Some (mergeStat f (upsertStat f day r tbl k))
                    else upsertStat f day r tbl k)"
    by (rule Cons.IH)
  also have "\<dots> = (if k \<in> (\<lambda>r. (day, r)) ` set (r # rs)
                    then Some (mergeStat f (tbl k)) else tbl k)"
    by (auto simp add: upsertStat_apply mergeStat_idem)
  finally show ?case .
qed

lemma byRoute_keys:
  "fst ` set (fold (\<lambda>vehicle m.
                    case v_route_id vehicle of
                      None \<Rightarrow> m
                    | Some routeId \<Rightarrow>
                        if routeId \<in> set (map fst m) then m else m @ [(routeId, fetchedAt)])
                 vehicles m0)
   = fst ` set m0 \<union> {r. Some r \<in> v_route_id ` set vehicles}"
proof (induction vehicles arbitrary: m0)
  case Nil
  then show ?case by simp
next
  case (Cons v vs)
  show ?case
  proof (cases "v_route_id v")
    case None
    then show ?thesis by (simp add: Cons.IH)
  next
    case (Some r)
    then show ?thesis by (auto simp add: Cons.IH)
  qed
qed

lemma upsertRouteDailyStats_apply:
  "routeDailyStats (upsertRouteDailyStats fetchedAt vehicles db) k =
     (if k \<in> (\<lambda>r. (utcDay fetchedAt, r)) ` {r. Some r \<in> v_route_id ` set vehicles}
      then Some (mergeStat fetchedAt (routeDailyStats db k))
      else routeDailyStats db k)"
proof -
  define byRoute where "byRoute = fold (\<lambda>vehicle m.
                    case v_route_id vehicle of
                      None \<Rightarrow> m
                    | Some routeId \<Rightarrow>
                        if routeId \<in> set (map fst m) then m else m @ [(routeId, fetchedAt)])
                 vehicles ([] :: (int \<times> Date) list)"
  have keys: "set (map fst byRoute) = {r. Some r \<in> v_route_id ` set vehicles}"
    using byRoute_keys [of fetchedAt vehicles "[]"] by (simp add: byRoute_def)
  show ?thesis
  proof (cases "byRoute = []")
    case True
    with keys have "{r. Some r \<in> v_route_id ` set vehicles} = {}" by simp
    with True show ?thesis
      by (simp add: upsertRouteDailyStats_def Let_def byRoute_def [symmetric])
  next
    case False
    then show ?thesis
      using keys
      by (simp add: upsertRouteDailyStats_def Let_def byRoute_def [symmetric]
          fold_upsertStat_apply)
  qed
qed


lemma mergeStat_widens:
  "ds_firstSeenAt (mergeStat f (Some row)) \<le> ds_firstSeenAt row
   \<and> ds_lastSeenAt row \<le> ds_lastSeenAt (mergeStat f (Some row))
   \<and> ds_firstSeenAt (mergeStat f (Some row)) = min (ds_firstSeenAt row) f
   \<and> ds_lastSeenAt (mergeStat f (Some row)) = max (ds_lastSeenAt row) f"
  by (simp add: mergeStat_def)

lemma upsertRouteDailyStats_widens:
  assumes "routeDailyStats db k = Some row"
  shows "\<exists>row'. routeDailyStats (upsertRouteDailyStats fetchedAt vehicles db) k = Some row'
     \<and> ds_firstSeenAt row' \<le> ds_firstSeenAt row \<and> ds_lastSeenAt row \<le> ds_lastSeenAt row'
     \<and> (row' = row \<or> (ds_firstSeenAt row' = min (ds_firstSeenAt row) fetchedAt
                       \<and> ds_lastSeenAt row' = max (ds_lastSeenAt row) fetchedAt))"
  using assms mergeStat_widens [of fetchedAt row]
  by (simp add: upsertRouteDailyStats_apply)

lemma upsertCycles_widens:
  assumes "routeDailyStats db k = Some row"
  shows "\<exists>row'. routeDailyStats (upsertCycles cycles db) k = Some row'
     \<and> ds_firstSeenAt row' \<le> ds_firstSeenAt row \<and> ds_lastSeenAt row \<le> ds_lastSeenAt row'"
  using assms
proof (induction cycles arbitrary: db row)
  case Nil
  then show ?case by (simp add: upsertCycles_def)
next
  case (Cons c cycles)
  obtain row1 where r1: "routeDailyStats (upsertRouteDailyStats (fst c) (snd c) db) k = Some row1"
    "ds_firstSeenAt row1 \<le> ds_firstSeenAt row" "ds_lastSeenAt row \<le> ds_lastSeenAt row1"
    using upsertRouteDailyStats_widens [OF Cons.prems, of "fst c" "snd c"] by blast
  obtain row' where r': "routeDailyStats (upsertCycles cycles (upsertRouteDailyStats (fst c) (snd c) db)) k = Some row'"
    "ds_firstSeenAt row' \<le> ds_firstSeenAt row1" "ds_lastSeenAt row1 \<le> ds_lastSeenAt row'"
    using Cons.IH [OF r1(1)] by blast
  have "upsertCycles (c # cycles) db = upsertCycles cycles (upsertRouteDailyStats (fst c) (snd c) db)"
    by (simp add: upsertCycles_def)
  with r1 r' show ?case by auto
qed

text \<open>
  Claim C8. One cycle of \<open>upsertRouteDailyStats\<close> leaves, under every key (day, route)
  of a route reported in the cycle, the row with both timestamps equal to the fetch
  time where there was none, and otherwise the prior row with \<open>first_seen_at\<close>
  replaced by its minimum with the fetch time and \<open>last_seen_at\<close> by its maximum with
  it; every other key keeps its row. Over any number of cycles a row that exists stays,
  its \<open>first_seen_at\<close> never increases and its \<open>last_seen_at\<close> never decreases.
\<close>

theorem route_daily_stats_widening:
  "(routeDailyStats (upsertRouteDailyStats fetchedAt vehicles db) k =
      (if k \<in> (\<lambda>r. (utcDay fetchedAt, r)) ` {r. Some r \<in> v_route_id ` set vehicles}
       then Some (case routeDailyStats db k of
                    None \<Rightarrow> \<lparr> ds_firstSeenAt = fetchedAt, ds_lastSeenAt = fetchedAt \<rparr>
                  | Some row \<Rightarrow> \<lparr> ds_firstSeenAt = min (ds_firstSeenAt row) fetchedAt,
                                 ds_lastSeenAt = max (ds_lastSeenAt row) fetchedAt \<rparr>)
       else routeDailyStats db k))
   \<and> (routeDailyStats db k = Some row \<longrightarrow>
        (\<exists>row'. routeDailyStats (upsertCycles cycles db) k = Some row'
           \<and> ds_firstSeenAt row' \<le> ds_firstSeenAt row
           \<and> ds_lastSeenAt row \<le> ds_lastSeenAt row'))"
  using upsertRouteDailyStats_apply [of fetchedAt vehicles db k] upsertCycles_widens [of db k row cycles]
  by (simp add: mergeStat_def)


theorem route_daily_stats_widening_witness:
  "routeDailyStats
     (upsertRouteDailyStats 259205000 [vehicleAt 1 7 ''T'' 0 0]
        (emptyDatabase\<lparr> routeDailyStats :=
           [(3, 7) \<mapsto> \<lparr> ds_firstSeenAt = 259201000, ds_lastSeenAt = 259202000 \<rparr>] \<rparr>))
     (3, 7)
   = Some \<lparr> ds_firstSeenAt = 259201000, ds_lastSeenAt = 259205000 \<rparr>
   \<and> (\<exists>row'. routeDailyStats
          (upsertCycles [(259205000, [vehicleAt 1 7 ''T'' 0 0]), (259200500, [vehicleAt 2 7 ''T'' 0 0])]
             (emptyDatabase\<lparr> routeDailyStats :=
                [(3, 7) \<mapsto> \<lparr> ds_firstSeenAt = 259201000, ds_lastSeenAt = 259202000 \<rparr>] \<rparr>))
          (3, 7) = Some row'
        \<and> ds_firstSeenAt row' \<le> 259201000 \<and> 259202000 \<le> ds_lastSeenAt row')"
  using route_daily_stats_widening
    [of 259205000 "[vehicleAt 1 7 ''T'' 0 0]"
        "emptyDatabase\<lparr> routeDailyStats :=
           [(3, 7) \<mapsto> \<lparr> ds_firstSeenAt = 259201000, ds_lastSeenAt = 259202000 \<rparr>] \<rparr>"
        "(3, 7)" "\<lparr> ds_firstSeenAt = 259201000, ds_lastSeenAt = 259202000 \<rparr>"
        "[(259205000, [vehicleAt 1 7 ''T'' 0 0]), (259200500, [vehicleAt 2 7 ''T'' 0 0])]"]
  by (simp add: utcDay_def vehicleAt_def)

section \<open>Inserts that cannot fail, and short inserts\<close>

lemma chunkedInsert_insertSerial:
  "chunkedInsert insertSerial rows tbl = (Inr (), tbl @ rows)"
proof (induction "length rows" arbitrary: rows tbl rule: less_induct)
  case less
  show ?case
  proof (cases "rows = []")
    case True
    then show ?thesis by (subst chunkedInsert.simps) simp
  next
    case False
    then have "length (drop 1000 rows) < length rows" by simp
    from less [OF this]
    have "chunkedInsert insertSerial (drop 1000 rows) (tbl @ take 1000 rows)
          = (Inr (), (tbl @ take 1000 rows) @ drop 1000 rows)" .
    with False show ?thesis
      by (subst chunkedInsert.simps) (simp add: insertSerial_def)
  qed
qed

lemma storeVehicleSnapshots_eq:
  "storeVehicleSnapshots fetchedAt vehicles db =
     (Inr (), db\<lparr> vehicleSnapshots := vehicleSnapshots db @ map (toSnapshot fetchedAt) vehicles \<rparr>)"
  by (simp add: storeVehicleSnapshots_def chunkedInsert_insertSerial)

lemma recordStopVisits_eq:
  "recordStopVisits fetchedAt vehicles (eng, db) =
     (Inr (),
      if stopsCache eng = [] then (eng, db)
      else (eng\<lparr> stopInsideByVehicle := fst (detectVisits eng fetchedAt vehicles) \<rparr>,
            db\<lparr> stopVisits := stopVisits db @ snd (detectVisits eng fetchedAt vehicles) \<rparr>))"
  by (simp add: recordStopVisits_def chunkedInsert_insertSerial Let_def split: prod.split)

lemma chunkedInsert_short:
  "length rows \<le> 1000 \<Longrightarrow> rows \<noteq> [] \<Longrightarrow>
   chunkedInsert ins rows tbl =
     (case ins rows tbl of Inl e \<Rightarrow> (Inl e, tbl) | Inr tbl' \<Rightarrow> (Inr (), tbl'))"
  by (subst chunkedInsert.simps) (simp add: chunkedInsert.simps [of _ "[]"] split: sum.split)

lemma chunkedInsert_Nil: "chunkedInsert ins [] tbl = (Inr (), tbl)"
  by (subst chunkedInsert.simps) simp

section \<open>The vehicles proxy\<close>

lemma pollVehicles_empty:
  assumes "fetchJson ''vehicles'' (vehiclesEndpoint provider) = Inr []"
  shows "pollVehicles provider fetchedAt (eng, db) =
           (Inr (), (eng\<lparr> latestVehiclesCache := [],
                           latestVehiclesFetchedAt := Some fetchedAt \<rparr>, db))"
  using assms
  by (simp add: pollVehicles_def andThen_def onDb_def storeVehicleSnapshots_eq
      upsertRouteDailyStats_def recordStopVisits_eq detectVisits_def)

text \<open>
  Claim C10. After a poll whose fetch returned an empty vehicle list, the cached cycle
  is empty although its fetch time is set, and \<^verbatim>\<open>GET /proxy/vehicles\<close> does not serve
  it: the handler fetches from the provider and answers with the fetched array itself
  (or lets the fetch error escape), not with the object \<^verbatim>\<open>{ fetchedAt, vehicles }\<close>. In
  general the handler serves the cached cycle exactly when it holds at least one
  vehicle.
\<close>

theorem proxy_vehicles_empty_cache:
  assumes "fetchJson ''vehicles'' (vehiclesEndpoint polled) = Inr []"
  shows "latestVehiclesCache (fst (snd (pollVehicles polled fetchedAt (eng, db)))) = []
    \<and> latestVehiclesFetchedAt (fst (snd (pollVehicles polled fetchedAt (eng, db)))) = Some fetchedAt
    \<and> proxyHandler provider (fst (snd (pollVehicles polled fetchedAt (eng, db)))) ''vehicles''
        = (case fetchJson ''vehicles'' (vehiclesEndpoint provider) of
             Inl e \<Rightarrow> Thrown e
           | Inr vehicles \<Rightarrow> ResponseJson (VehiclesJson vehicles))
    \<and> (latestVehiclesCache eng \<noteq> [] \<longrightarrow>
         proxyHandler provider eng ''vehicles''
           = ResponseJson (LatestJson (latestVehiclesFetchedAt eng) (latestVehiclesCache eng)))
    \<and> (latestVehiclesCache eng = [] \<longrightarrow>
         proxyHandler provider eng ''vehicles''
           = (case fetchJson ''vehicles'' (vehiclesEndpoint provider) of
                Inl e \<Rightarrow> Thrown e
              | Inr vehicles \<Rightarrow> ResponseJson (VehiclesJson vehicles)))"
  unfolding pollVehicles_empty [OF assms]
  by (simp add: proxyHandler_def fetchResource_def split: sum.split)

theorem proxy_vehicles_empty_cache_witness:
  "fetchJson ''vehicles'' (vehiclesEndpoint (providerOf [] [] [] [])) = Inr []
   \<and> latestVehiclesFetchedAt
        (fst (snd (pollVehicles (providerOf [] [] [] []) 1000 (initialEngine, emptyDatabase))))
       = Some 1000
   \<and> proxyHandler (providerOf [vehicleAt 1 7 ''T'' 0 0] [] [] [])
        (fst (snd (pollVehicles (providerOf [] [] [] []) 1000 (initialEngine, emptyDatabase))))
        ''vehicles''
       = ResponseJson (VehiclesJson [vehicleAt 1 7 ''T'' 0 0])
   \<and> proxyHandler (providerOf [] [] [] [])
        (initialEngine\<lparr> latestVehiclesCache := [vehicleAt 1 7 ''T'' 0 0],
                        latestVehiclesFetchedAt := Some 500 \<rparr>)
        ''vehicles''
       = ResponseJson (LatestJson (Some 500) [vehicleAt 1 7 ''T'' 0 0])"
proof -
  have h: "fetchJson ''vehicles'' (vehiclesEndpoint (providerOf [] [] [] [])) = Inr []"
    by (simp add: fetchJson_def providerOf_def okResponse_def)
  show ?thesis
    using h proxy_vehicles_empty_cache [OF h, of 1000 initialEngine emptyDatabase
        "providerOf [vehicleAt 1 7 ''T'' 0 0] [] [] []"]
      proxy_vehicles_empty_cache [OF h, of 1000
        "initialEngine\<lparr> latestVehiclesCache := [vehicleAt 1 7 ''T'' 0 0],
                        latestVehiclesFetchedAt := Some 500 \<rparr>" emptyDatabase
        "providerOf [] [] [] []"]
    by (simp add: fetchJson_def providerOf_def okResponse_def)
qed

section \<open>Static refresh and failure\<close>

lemma upsertRoutes_keeps:
  assumes "upsertRoutes now data db = (r, db')"
  shows "vehicleSnapshots db' = vehicleSnapshots db \<and> stopVisits db' = stopVisits db
       \<and> routeDailyStats db' = routeDailyStats db \<and> stops db' = stops db
       \<and> trips db' = trips db \<and> stopTimes db' = stopTimes db \<and> shapes db' = shapes db"
  using assms by (auto simp add: upsertRoutes_def split: if_splits)

lemma andThen_Inl:
  assumes "andThen step rest s = (Inl e, s')"
  shows "step s = (Inl e, s') \<or> (\<exists>x s1. step s = (Inr x, s1) \<and> rest x s1 = (Inl e, s'))"
  using assms by (auto simp add: andThen_def split: prod.splits sum.splits)

lemma onDb_engine:
  assumes "onDb act (eng, db) = (r, (eng', db'))"
  shows "eng' = eng \<and> act db = (r, db')"
  using assms by (auto simp add: onDb_def split: prod.splits)

lemma onTable_engine:
  assumes "onTable sel upd act (eng, db) = (r, (eng', db'))"
  shows "eng' = eng \<and> (\<exists>tbl'. db' = upd tbl' db)"
  using assms by (auto simp add: onTable_def split: prod.splits)

lemma refresh_failure_kept:
  assumes "refreshStaticData provider now (eng, db) = (Inl e, (eng', db'))"
  shows "keptOnFailure (eng, db) (eng', db')"
  using assms
  apply (simp add: refreshStaticData_def Let_def split: sum.splits)
       apply (auto simp add: keptOnFailure_def)[5]
  apply (auto dest!: andThen_Inl)
        apply (auto dest!: onDb_engine onTable_engine upsertRoutes_keeps
                    simp add: keptOnFailure_def loadStopsCache_def Let_def)
  done

lemma refresh_fetch_failure:
  assumes "isl (fetchJson ''routes'' (routesEndpoint provider))
         \<or> isl (fetchJson ''trips'' (tripsEndpoint provider))
         \<or> isl (fetchJson ''stops'' (stopsEndpoint provider))
         \<or> isl (fetchJson ''stop_times'' (stopTimesEndpoint provider))
         \<or> isl (fetchJson ''shapes'' (shapesEndpoint provider))"
  shows "isl (fst (refreshStaticData provider now s))
       \<and> snd (refreshStaticData provider now s) = s"
  using assms
  by (auto simp add: refreshStaticData_def isl_def split: sum.split)

text \<open>
  Claim C7, as amended. Whenever \<open>refreshStaticData\<close> fails, in the provider fetch or in
  persistence, the trip lookup and the trip-to-stop-set mapping are left exactly as
  they were before the refresh, and so are the other module variables and the tables
  that are not reference tables; the stop cache and the stop lookup are either as they
  were or reloaded from the \<^verbatim>\<open>stops\<close> table as the failure left it. If the failure is in
  the provider fetch (one of the five fetches rejects or answers with a status that is
  not ok), all in-memory caches and all persisted tables are left exactly as they were.
\<close>

theorem refresh_failure_keeps_state:
  "(refreshStaticData provider now (eng, db) = (Inl e, (eng', db')) \<longrightarrow>
      tripByIdCache eng' = tripByIdCache eng
      \<and> stopIdsByTripId eng' = stopIdsByTripId eng
      \<and> stopInsideByVehicle eng' = stopInsideByVehicle eng
      \<and> latestVehiclesCache eng' = latestVehiclesCache eng
      \<and> latestVehiclesFetchedAt eng' = latestVehiclesFetchedAt eng
      \<and> vehicleSnapshots db' = vehicleSnapshots db
      \<and> stopVisits db' = stopVisits db
      \<and> routeDailyStats db' = routeDailyStats db
      \<and> (stopsCache eng' = stopsCache eng \<and> stopById eng' = stopById eng
         \<or> stopsCache eng' = map fromStopRow (stops db')
           \<and> stopById eng' = newMap (map (\<lambda>stop. (stop_id stop, stop)) (stopsCache eng'))))
   \<and> (isl (fetchJson ''routes'' (routesEndpoint provider))
         \<or> isl (fetchJson ''trips'' (tripsEndpoint provider))
         \<or> isl (fetchJson ''stops'' (stopsEndpoint provider))
         \<or> isl (fetchJson ''stop_times'' (stopTimesEndpoint provider))
         \<or> isl (fetchJson ''shapes'' (shapesEndpoint provider))
       \<longrightarrow> (\<exists>err. refreshStaticData provider now (eng, db) = (Inl err, (eng, db))))"
proof (intro conjI impI)
  assume "refreshStaticData provider now (eng, db) = (Inl e, (eng', db'))"
  then have k: "keptOnFailure (eng, db) (eng', db')" by (rule refresh_failure_kept)
  from k show "tripByIdCache eng' = tripByIdCache eng" by (simp add: keptOnFailure_def)
  from k show "stopIdsByTripId eng' = stopIdsByTripId eng" by (simp add: keptOnFailure_def)
  from k show "stopInsideByVehicle eng' = stopInsideByVehicle eng"
    by (simp add: keptOnFailure_def)
  from k show "latestVehiclesCache eng' = latestVehiclesCache eng"
    by (simp add: keptOnFailure_def)
  from k show "latestVehiclesFetchedAt eng' = latestVehiclesFetchedAt eng"
    by (simp add: keptOnFailure_def)
  from k show "vehicleSnapshots db' = vehicleSnapshots db" by (simp add: keptOnFailure_def)
  from k show "stopVisits db' = stopVisits db" by (simp add: keptOnFailure_def)
  from k show "routeDailyStats db' = routeDailyStats db" by (simp add: keptOnFailure_def)
  from k show "stopsCache eng' = stopsCache eng \<and> stopById eng' = stopById eng
         \<or> stopsCache eng' = map fromStopRow (stops db')
           \<and> stopById eng' = newMap (map (\<lambda>stop. (stop_id stop, stop)) (stopsCache eng'))"
    by (simp add: keptOnFailure_def)
next
  assume f: "isl (fetchJson ''routes'' (routesEndpoint provider))
         \<or> isl (fetchJson ''trips'' (tripsEndpoint provider))
         \<or> isl (fetchJson ''stops'' (stopsEndpoint provider))
         \<or> isl (fetchJson ''stop_times'' (stopTimesEndpoint provider))
         \<or> isl (fetchJson ''shapes'' (shapesEndpoint provider))"
  from refresh_fetch_failure [OF f, of now "(eng, db)"]
  show "\<exists>err. refreshStaticData provider now (eng, db) = (Inl err, (eng, db))"
    by (cases "refreshStaticData provider now (eng, db)") (auto simp add: isl_def)
qed

theorem refresh_failure_keeps_state_witness:
  "refreshStaticData
       (providerOf [] [tripOf ''N'' 9] [stopAt 43 0 0]
          [stopTimeOf ''N'' 43 1, stopTimeOf ''N'' 43 1])
       0 (exampleEngine, emptyDatabase\<lparr> stopTimes := [stopTimeOf ''T'' 42 1] \<rparr>)
     = (Inl (UniqueViolation ''stop_times''),
        (exampleEngine\<lparr> stopsCache := [fromStopRow (toStopRow (stopAt 43 0 0))],
                        stopById := newMap [(43, fromStopRow (toStopRow (stopAt 43 0 0)))] \<rparr>,
         emptyDatabase\<lparr> trips := [tripOf ''N'' 9], stops := [toStopRow (stopAt 43 0 0)] \<rparr>))
   \<and> tripByIdCache
        (exampleEngine\<lparr> stopsCache := [fromStopRow (toStopRow (stopAt 43 0 0))],
                        stopById := newMap [(43, fromStopRow (toStopRow (stopAt 43 0 0)))] \<rparr>)
       = tripByIdCache exampleEngine
   \<and> stopIdsByTripId
        (exampleEngine\<lparr> stopsCache := [fromStopRow (toStopRow (stopAt 43 0 0))],
                        stopById := newMap [(43, fromStopRow (toStopRow (stopAt 43 0 0)))] \<rparr>)
       = stopIdsByTripId exampleEngine
   \<and> tripByIdCache exampleEngine ''T'' = Some \<lparr> ti_routeId = 7, ti_directionId = 0 \<rparr>
   \<and> tripByIdCache exampleEngine ''N'' = None
   \<and> stopIdsByTripId exampleEngine ''T'' = Some [42]
   \<and> isl (fetchJson ''stops''
            (stopsEndpoint ((providerOf [] [] [] [])\<lparr> stopsEndpoint := unavailable [] \<rparr>)))
   \<and> (\<exists>err. refreshStaticData ((providerOf [] [] [] [])\<lparr> stopsEndpoint := unavailable [] \<rparr>) 0
               (exampleEngine, emptyDatabase\<lparr> trips := [tripOf ''T'' 7] \<rparr>)
             = (Inl err, (exampleEngine, emptyDatabase\<lparr> trips := [tripOf ''T'' 7] \<rparr>)))"
proof -
  have e: "refreshStaticData
       (providerOf [] [tripOf ''N'' 9] [stopAt 43 0 0]
          [stopTimeOf ''N'' 43 1, stopTimeOf ''N'' 43 1])
       0 (exampleEngine, emptyDatabase\<lparr> stopTimes := [stopTimeOf ''T'' 42 1] \<rparr>)
     = (Inl (UniqueViolation ''stop_times''),
        (exampleEngine\<lparr> stopsCache := [fromStopRow (toStopRow (stopAt 43 0 0))],
                        stopById := newMap [(43, fromStopRow (toStopRow (stopAt 43 0 0)))] \<rparr>,
         emptyDatabase\<lparr> trips := [tripOf ''N'' 9], stops := [toStopRow (stopAt 43 0 0)] \<rparr>))"
    by (simp add: refreshStaticData_def fetchJson_def providerOf_def okResponse_def
        andThen_def onDb_def onTable_def upsertRoutes_def chunkedInsert_short chunkedInsert_Nil
        insertValues_def loadStopsCache_def Let_def emptyDatabase_def
        stopTimeOf_def tripOf_def stopAt_def toStopRow_def fromStopRow_def)
  have x: "tripByIdCache exampleEngine ''T'' = Some \<lparr> ti_routeId = 7, ti_directionId = 0 \<rparr>"
    "tripByIdCache exampleEngine ''N'' = None"
    "stopIdsByTripId exampleEngine ''T'' = Some [42]"
    by (simp_all add: exampleEngine_def buildStaticCaches_def tripOf_def stopTimeOf_def
        setAdd_def)
  have h: "isl (fetchJson ''stops''
            (stopsEndpoint ((providerOf [] [] [] [])\<lparr> stopsEndpoint := unavailable [] \<rparr>)))"
    by (simp add: fetchJson_def unavailable_def)
  from refresh_failure_keeps_state
      [of "providerOf [] [tripOf ''N'' 9] [stopAt 43 0 0]
             [stopTimeOf ''N'' 43 1, stopTimeOf ''N'' 43 1]"
          0 exampleEngine "emptyDatabase\<lparr> stopTimes := [stopTimeOf ''T'' 42 1] \<rparr>"
          "UniqueViolation ''stop_times''"
          "exampleEngine\<lparr> stopsCache := [fromStopRow (toStopRow (stopAt 43 0 0))],
                        stopById := newMap [(43, fromStopRow (toStopRow (stopAt 43 0 0)))] \<rparr>"
          "emptyDatabase\<lparr> trips := [tripOf ''N'' 9], stops := [toStopRow (stopAt 43 0 0)] \<rparr>"]
    e
  have a: "tripByIdCache
        (exampleEngine\<lparr> stopsCache := [fromStopRow (toStopRow (stopAt 43 0 0))],
                        stopById := newMap [(43, fromStopRow (toStopRow (stopAt 43 0 0)))] \<rparr>)
       = tripByIdCache exampleEngine
     \<and> stopIdsByTripId
        (exampleEngine\<lparr> stopsCache := [fromStopRow (toStopRow (stopAt 43 0 0))],
                        stopById := newMap [(43, fromStopRow (toStopRow (stopAt 43 0 0)))] \<rparr>)
       = stopIdsByTripId exampleEngine"
    by blast
  from refresh_failure_keeps_state
      [of "(providerOf [] [] [] [])\<lparr> stopsEndpoint := unavailable [] \<rparr>" 0
          exampleEngine "emptyDatabase\<lparr> trips := [tripOf ''T'' 7] \<rparr>"]
    h
  have b: "\<exists>err. refreshStaticData ((providerOf [] [] [] [])\<lparr> stopsEndpoint := unavailable [] \<rparr>) 0
               (exampleEngine, emptyDatabase\<lparr> trips := [tripOf ''T'' 7] \<rparr>)
             = (Inl err, (exampleEngine, emptyDatabase\<lparr> trips := [tripOf ''T'' 7] \<rparr>))"
    by blast
  from e x h a b show ?thesis by blast
qed

text \<open>
  Claim C7 as stated also covers a failure of persistence. There it does not hold:
  when the provider sends two stop times with the same trip and sequence, the insert
  into \<^verbatim>\<open>stop_times\<close> is refused after the tables were emptied and \<^verbatim>\<open>trips\<close> and
  \<^verbatim>\<open>stops\<close> refilled, and after \<open>loadStopsCache\<close> replaced the stop cache.
\<close>

theorem refresh_persistence_failure_counterexample:
  "fst (refreshStaticData
          (providerOf [] [tripOf ''T'' 7] [stopAt 42 0 0]
             [stopTimeOf ''T'' 42 1, stopTimeOf ''T'' 42 1])
          0 (initialEngine, emptyDatabase\<lparr> stopTimes := [stopTimeOf ''U'' 5 1] \<rparr>))
     = Inl (UniqueViolation ''stop_times'')
   \<and> stopTimes (snd (snd (refreshStaticData
          (providerOf [] [tripOf ''T'' 7] [stopAt 42 0 0]
             [stopTimeOf ''T'' 42 1, stopTimeOf ''T'' 42 1])
          0 (initialEngine, emptyDatabase\<lparr> stopTimes := [stopTimeOf ''U'' 5 1] \<rparr>)))) = []
   \<and> stopTimes (emptyDatabase\<lparr> stopTimes := [stopTimeOf ''U'' 5 1] \<rparr>) \<noteq> []
   \<and> stopsCache (fst (snd (refreshStaticData
          (providerOf [] [tripOf ''T'' 7] [stopAt 42 0 0]
             [stopTimeOf ''T'' 42 1, stopTimeOf ''T'' 42 1])
          0 (initialEngine, emptyDatabase\<lparr> stopTimes := [stopTimeOf ''U'' 5 1] \<rparr>))))
       = [fromStopRow (toStopRow (stopAt 42 0 0))]
   \<and> stopsCache initialEngine = []
   \<and> snd (refreshStaticData
          (providerOf [] [tripOf ''T'' 7] [stopAt 42 0 0]
             [stopTimeOf ''T'' 42 1, stopTimeOf ''T'' 42 1])
          0 (initialEngine, emptyDatabase\<lparr> stopTimes := [stopTimeOf ''U'' 5 1] \<rparr>))
       \<noteq> (initialEngine, emptyDatabase\<lparr> stopTimes := [stopTimeOf ''U'' 5 1] \<rparr>)"
proof -
  have e: "refreshStaticData
          (providerOf [] [tripOf ''T'' 7] [stopAt 42 0 0]
             [stopTimeOf ''T'' 42 1, stopTimeOf ''T'' 42 1])
          0 (initialEngine, emptyDatabase\<lparr> stopTimes := [stopTimeOf ''U'' 5 1] \<rparr>)
     = (Inl (UniqueViolation ''stop_times''),
        (initialEngine\<lparr> stopsCache := [fromStopRow (toStopRow (stopAt 42 0 0))],
                        stopById := newMap [(42, fromStopRow (toStopRow (stopAt 42 0 0)))] \<rparr>,
         emptyDatabase\<lparr> trips := [tripOf ''T'' 7], stops := [toStopRow (stopAt 42 0 0)] \<rparr>))"
    by (simp add: refreshStaticData_def fetchJson_def providerOf_def okResponse_def
        andThen_def onDb_def onTable_def upsertRoutes_def chunkedInsert_short chunkedInsert_Nil
        insertValues_def loadStopsCache_def Let_def emptyDatabase_def initialEngine_def
        stopTimeOf_def tripOf_def stopAt_def toStopRow_def fromStopRow_def)
  show ?thesis
    unfolding e by (simp add: emptyDatabase_def initialEngine_def)
qed

section \<open>The detector, pair by pair\<close>

lemma newMap_fold_Some:
  "fold (\<lambda>(k, v) m. m(k \<mapsto> v)) entries m0 k = Some v \<Longrightarrow>
   (k, v) \<in> set entries \<or> m0 k = Some v"
proof (induction entries arbitrary: m0)
  case Nil
  then show ?case by simp
next
  case (Cons e entries)
  obtain a b where e: "e = (a, b)" by (cases e)
  from Cons.prems have "fold (\<lambda>(k, v) m. m(k \<mapsto> v)) entries (m0(a \<mapsto> b)) k = Some v"
    by (simp only: e fold_simps o_apply case_prod_conv)
  from Cons.IH [OF this] show ?case
    by (auto simp add: e split: if_splits)
qed

lemma newMap_Some: "newMap entries k = Some v \<Longrightarrow> (k, v) \<in> set entries"
  using newMap_fold_Some [of entries Map.empty k v] by (simp add: newMap_def)

lemma cachesCoherent_keyed:
  "cachesCoherent eng \<Longrightarrow> stopById eng k = Some stop \<Longrightarrow> stop_id stop = k"
  by (auto simp add: cachesCoherent_def dest!: newMap_Some)

lemma pairView_visitStop:
  assumes keyed: "\<And>k s. byId k = Some s \<Longrightarrow> stop_id s = k"
  shows "pairView vid sid (visitStop byId f veh r ob lat lon k s) =
     (if v_id veh = vid \<and> k = sid then
        (case byId sid of
           None \<Rightarrow> pairView vid sid s
         | Some stop \<Rightarrow>
             pairCheck (haversineMeters lat lon (stop_lat stop) (stop_lon stop))
               (exitEvent f veh r ob lat lon stop
                  (haversineMeters lat lon (stop_lat stop) (stop_lon stop)))
               (pairView vid sid s))
      else pairView vid sid s)"
proof (cases s)
  case (Pair ins evs)
  show ?thesis
  proof (cases "byId k")
    case None
    then show ?thesis by (auto simp add: Pair visitStop_def)
  next
    case (Some stop)
    then have sk: "stop_id stop = k" by (rule keyed)
    show ?thesis
      using Some sk
      by (auto simp add: Pair visitStop_def pairView_def pairCheck_def Let_def visitsOf_def
          exitEvent_def)
  qed
qed

lemma pairCheck_idem:
  "pairCheck d (exitEvent f veh r ob lat lon stop d')
     (pairCheck d ev st) = pairCheck d ev st"
  by (cases st)
     (auto simp add: pairCheck_def STOP_EXIT_RADIUS_METERS_def STOP_RADIUS_METERS_def)

lemma pairView_fold_visitStop:
  assumes keyed: "\<And>k s. byId k = Some s \<Longrightarrow> stop_id s = k"
  shows "pairView vid sid (fold (visitStop byId f veh r ob lat lon) ks s) =
     (if v_id veh = vid \<and> sid \<in> set ks then
        (case byId sid of
           None \<Rightarrow> pairView vid sid s
         | Some stop \<Rightarrow>
             pairCheck (haversineMeters lat lon (stop_lat stop) (stop_lon stop))
               (exitEvent f veh r ob lat lon stop
                  (haversineMeters lat lon (stop_lat stop) (stop_lon stop)))
               (pairView vid sid s))
      else pairView vid sid s)"
proof (induction ks arbitrary: s)
  case Nil
  then show ?case by simp
next
  case (Cons k ks)
  have "pairView vid sid (fold (visitStop byId f veh r ob lat lon) (k # ks) s)
        = pairView vid sid (fold (visitStop byId f veh r ob lat lon) ks
             (visitStop byId f veh r ob lat lon k s))"
    by simp
  also have "\<dots> = (if v_id veh = vid \<and> sid \<in> set ks then
        (case byId sid of
           None \<Rightarrow> pairView vid sid (visitStop byId f veh r ob lat lon k s)
         | Some stop \<Rightarrow>
             pairCheck (haversineMeters lat lon (stop_lat stop) (stop_lon stop))
               (exitEvent f veh r ob lat lon stop
                  (haversineMeters lat lon (stop_lat stop) (stop_lon stop)))
               (pairView vid sid (visitStop byId f veh r ob lat lon k s)))
      else pairView vid sid (visitStop byId f veh r ob lat lon k s))"
    by (rule Cons.IH)
  finally show ?case
    by (auto simp add: pairView_visitStop [OF keyed] pairCheck_idem split: option.split)
qed


lemma pairView_visitVehicle:
  assumes "cachesCoherent eng"
  shows "pairView vid sid (visitVehicle eng f v s) =
     (if v_id v = vid then pairVisit eng f v sid (pairView vid sid s) else pairView vid sid s)"
proof -
  have keyed: "\<And>k s. stopById eng k = Some s \<Longrightarrow> stop_id s = k"
    using assms by (rule cachesCoherent_keyed)
  show ?thesis
    by (auto simp add: visitVehicle_def pairVisit_def stopsChecked_def Let_def
        pairView_fold_visitStop [OF keyed]
        split: option.split)
qed

lemma pairView_fold_visitVehicle:
  assumes "cachesCoherent eng"
  shows "pairView vid sid (fold (visitVehicle eng f) vs s) =
     fold (\<lambda>v. pairVisit eng f v sid) (filter (\<lambda>v. v_id v = vid) vs) (pairView vid sid s)"
proof (induction vs arbitrary: s)
  case Nil
  then show ?case by simp
next
  case (Cons v vs)
  show ?case
    by (simp add: Cons.IH pairView_visitVehicle [OF assms])
qed

lemma emitted_eq:
  "emitted f vs (eng, db) = (if stopsCache eng = [] then [] else snd (detectVisits eng f vs))"
  by (simp add: emitted_def recordStopVisits_eq)

lemma containment_eq:
  "containment f vs (eng, db) =
     (if stopsCache eng = [] then stopInsideByVehicle eng else fst (detectVisits eng f vs))"
  by (simp add: containment_def recordStopVisits_eq)

lemma pair_cycle:
  assumes "cachesCoherent eng" and "stopsCache eng \<noteq> []"
  shows "((vid, sid) \<in> containment f vs (eng, db), visitsOf vid sid (emitted f vs (eng, db)))
     = fold (\<lambda>v. pairVisit eng f v sid) (filter (\<lambda>v. v_id v = vid) vs)
         ((vid, sid) \<in> stopInsideByVehicle eng, [])"
proof -
  have "pairView vid sid (detectVisits eng f vs)
        = fold (\<lambda>v. pairVisit eng f v sid) (filter (\<lambda>v. v_id v = vid) vs)
            (pairView vid sid (stopInsideByVehicle eng, []))"
    unfolding detectVisits_def by (rule pairView_fold_visitVehicle [OF assms(1)])
  then show ?thesis
    using assms(2)
    by (simp add: emitted_eq containment_eq pairView_def visitsOf_def split: prod.splits)
qed

lemma haversine_on_equator:
  assumes "0 \<le> d" and "d < 6371000"
  shows "haversineMeters 0 (lonAt d) 0 0 = d"
proof -
  define th where "th = d / (2 * 6371000)"
  have th: "0 \<le> th" "th < pi / 2"
  proof -
    show "0 \<le> th" using assms by (simp add: th_def)
    have "th < 1 / 2" using assms by (simp add: th_def)
    also have "\<dots> < pi / 2" using pi_ge_two by simp
    finally show "th < pi / 2" .
  qed
  have dl: "toRadians (0 - lonAt d) / 2 = - th"
    by (simp add: toRadians_def lonAt_def th_def)
  have s0: "0 \<le> sin th" using th pi_ge_two by (intro sin_ge_zero) simp_all
  have c0: "0 < cos th" using th by (intro cos_gt_zero_pi) simp_all
  have sq1: "\<bar>sin th\<bar> = sin th" using s0 by simp
  have "1 - sin th * sin th = cos th * cos th"
    using sin_cos_squared_add [of th] by (simp add: power2_eq_square)
  then have sq2: "sqrt (1 - sin th * sin th) = cos th" using c0 by simp
  have at: "atan2 (sin th) (cos th) = th"
    using c0 th arctan_tan [of th] by (simp add: atan2_def tan_def)
  have "haversineMeters 0 (lonAt d) 0 0 = 6371000 * (2 * th)"
    unfolding haversineMeters_def Let_def dl
    by (simp add: toRadians_def sq1 sq2 at)
  then show ?thesis by (simp add: th_def)
qed

lemma distanceTo_on_equator:
  assumes "0 \<le> d" and "d < 6371000"
  shows "distanceTo (stopAt k 0 0) (vehicleAt i r t 0 (lonAt d)) = Some d"
  using haversine_on_equator [OF assms]
  by (simp add: distanceTo_def stopAt_def vehicleAt_def)

lemma after_cycle:
  "snd (recordStopVisits f vs (eng, db)) =
     (eng\<lparr> stopInsideByVehicle := containment f vs (eng, db) \<rparr>,
      db\<lparr> stopVisits := stopVisits db @ emitted f vs (eng, db) \<rparr>)"
  by (simp add: recordStopVisits_eq emitted_eq containment_eq)

lemma stopsChecked_inside_update [simp]:
  "stopsChecked (eng\<lparr> stopInsideByVehicle := x \<rparr>) v = stopsChecked eng v"
  by (simp add: stopsChecked_def split: option.split prod.split)

lemma pairVisit_inside_update [simp]:
  "pairVisit (eng\<lparr> stopInsideByVehicle := x \<rparr>) f v sid = pairVisit eng f v sid"
  by (rule ext) (simp add: pairVisit_def)

lemma cachesCoherent_inside_update [simp]:
  "cachesCoherent (eng\<lparr> stopInsideByVehicle := x \<rparr>) = cachesCoherent eng"
  by (simp add: cachesCoherent_def)

lemma pairVisit_checked:
  assumes "sid \<in> set (stopsChecked eng v)" and "stopById eng sid = Some stop"
    and "v_latitude v = Some lat" and "v_longitude v = Some lon" and "v_route_id v = Some r"
    and "distanceTo stop v = Some d"
  shows "pairVisit eng f v sid st =
           pairCheck d (exitEvent f v r (case v_timestamp v of Some t \<Rightarrow> t | None \<Rightarrow> f)
                          lat lon stop d) st"
  using assms by (simp add: pairVisit_def distanceTo_def)

lemma stopsChecked_fields:
  assumes "sid \<in> set (stopsChecked eng v)"
  shows "\<exists>lat lon r t info ks. v_latitude v = Some lat \<and> v_longitude v = Some lon
           \<and> v_route_id v = Some r \<and> v_trip_id v = Some t \<and> t \<noteq> []
           \<and> tripByIdCache eng t = Some info \<and> ti_routeId info = r
           \<and> stopIdsByTripId eng t = Some ks \<and> sid \<in> set ks"
proof -
  obtain lat lon r t where v: "v_latitude v = Some lat" "v_longitude v = Some lon"
      "v_route_id v = Some r" "v_trip_id v = Some t"
    using assms
    by (cases "v_latitude v"; cases "v_longitude v"; cases "v_route_id v"; cases "v_trip_id v")
       (simp_all add: stopsChecked_def)
  obtain info ks where c: "tripByIdCache eng t = Some info" "stopIdsByTripId eng t = Some ks"
    using assms v
    by (cases "tripByIdCache eng t"; cases "stopIdsByTripId eng t")
       (simp_all add: stopsChecked_def)
  have "t \<noteq> [] \<and> ti_routeId info = r \<and> sid \<in> set ks"
    using assms v c by (simp add: stopsChecked_def split: if_splits)
  with v c show ?thesis by blast
qed

lemma pairVisit_band:
  assumes "stopById eng sid = Some stop" and "distanceTo stop v = Some d"
    and "STOP_RADIUS_METERS < d" and "d \<le> STOP_EXIT_RADIUS_METERS"
  shows "pairVisit eng f v sid st = st"
  using assms
  by (cases st) (auto simp add: pairVisit_def distanceTo_def pairCheck_def split: option.splits)

lemma fold_unchanged: "(\<And>x. x \<in> set xs \<Longrightarrow> g x st = st) \<Longrightarrow> fold g xs st = st"
  by (induction xs) simp_all

lemma band_cycle:
  assumes "cachesCoherent eng" and "stopById eng sid = Some stop"
    and "\<And>v. v \<in> set vs \<Longrightarrow> v_id v = vid \<Longrightarrow>
           \<exists>d. distanceTo stop v = Some d \<and> STOP_RADIUS_METERS < d \<and> d \<le> STOP_EXIT_RADIUS_METERS"
  shows "((vid, sid) \<in> containment f vs (eng, db)) = ((vid, sid) \<in> stopInsideByVehicle eng)
       \<and> visitsOf vid sid (emitted f vs (eng, db)) = []"
proof (cases "stopsCache eng = []")
  case True
  then show ?thesis by (simp add: emitted_eq containment_eq visitsOf_def)
next
  case False
  have "fold (\<lambda>v. pairVisit eng f v sid) (filter (\<lambda>v. v_id v = vid) vs)
          ((vid, sid) \<in> stopInsideByVehicle eng, [])
        = ((vid, sid) \<in> stopInsideByVehicle eng, [])"
  proof (rule fold_unchanged)
    fix v assume "v \<in> set (filter (\<lambda>v. v_id v = vid) vs)"
    then have "v \<in> set vs" "v_id v = vid" by simp_all
    from assms(3) [OF this] obtain d where "distanceTo stop v = Some d"
      "STOP_RADIUS_METERS < d" "d \<le> STOP_EXIT_RADIUS_METERS" by blast
    then show "pairVisit eng f v sid ((vid, sid) \<in> stopInsideByVehicle eng, [])
               = ((vid, sid) \<in> stopInsideByVehicle eng, [])"
      using assms(2) by (intro pairVisit_band)
  qed
  with pair_cycle [OF assms(1) False, of vid sid f vs db] show ?thesis by simp
qed

lemma visitsOf_append [simp]: "visitsOf a b (xs @ ys) = visitsOf a b xs @ visitsOf a b ys"
  by (simp add: visitsOf_def)

lemma band_cycles:
  assumes "cachesCoherent eng" and "stopById eng sid = Some stop"
    and "\<And>c v. c \<in> set cycles \<Longrightarrow> v \<in> set (snd c) \<Longrightarrow> v_id v = vid \<Longrightarrow>
           \<exists>d. distanceTo stop v = Some d \<and> STOP_RADIUS_METERS < d \<and> d \<le> STOP_EXIT_RADIUS_METERS"
  shows "((vid, sid) \<in> stopInsideByVehicle (fst (recordCycles cycles (eng, db))))
           = ((vid, sid) \<in> stopInsideByVehicle eng)
       \<and> visitsOf vid sid (stopVisits (snd (recordCycles cycles (eng, db))))
           = visitsOf vid sid (stopVisits db)"
  using assms
proof (induction cycles arbitrary: eng db)
  case Nil
  then show ?case by (simp add: recordCycles_def)
next
  case (Cons c cycles)
  define eng1 where "eng1 = eng\<lparr> stopInsideByVehicle := containment (fst c) (snd c) (eng, db) \<rparr>"
  define db1 where "db1 = db\<lparr> stopVisits := stopVisits db @ emitted (fst c) (snd c) (eng, db) \<rparr>"
  have step: "recordCycles (c # cycles) (eng, db) = recordCycles cycles (eng1, db1)"
    by (simp add: recordCycles_def after_cycle eng1_def db1_def)
  have one: "((vid, sid) \<in> containment (fst c) (snd c) (eng, db)) = ((vid, sid) \<in> stopInsideByVehicle eng)
       \<and> visitsOf vid sid (emitted (fst c) (snd c) (eng, db)) = []"
  proof (rule band_cycle [OF Cons.prems(1,2)])
    fix v assume "v \<in> set (snd c)" "v_id v = vid"
    then show "\<exists>d. distanceTo stop v = Some d \<and> STOP_RADIUS_METERS < d \<and> d \<le> STOP_EXIT_RADIUS_METERS"
      using Cons.prems(3) [of c v] by simp
  qed
  have "((vid, sid) \<in> stopInsideByVehicle (fst (recordCycles cycles (eng1, db1))))
           = ((vid, sid) \<in> stopInsideByVehicle eng1)
       \<and> visitsOf vid sid (stopVisits (snd (recordCycles cycles (eng1, db1))))
           = visitsOf vid sid (stopVisits db1)"
  proof (rule Cons.IH)
    show "cachesCoherent eng1" using Cons.prems(1) by (simp add: eng1_def)
    show "stopById eng1 sid = Some stop" using Cons.prems(2) by (simp add: eng1_def)
    fix c' v assume "c' \<in> set cycles" "v \<in> set (snd c')" "v_id v = vid"
    then show "\<exists>d. distanceTo stop v = Some d \<and> STOP_RADIUS_METERS < d \<and> d \<le> STOP_EXIT_RADIUS_METERS"
      using Cons.prems(3) [of c' v] by simp
  qed
  then show ?case
    unfolding step using one by (simp add: eng1_def db1_def)
qed

lemma exit_cycles:
  assumes co: "cachesCoherent eng" and ne: "stopsCache eng \<noteq> []"
    and stop: "stopById eng sid = Some stop"
    and f1: "filter (\<lambda>v. v_id v = vid) vs1 = [v1]"
    and f2: "filter (\<lambda>v. v_id v = vid) vs2 = [v2]"
    and c1: "sid \<in> set (stopsChecked eng v1)" and c2: "sid \<in> set (stopsChecked eng v2)"
    and d1: "distanceTo stop v1 = Some d1" and d2: "distanceTo stop v2 = Some d2"
    and near: "d1 \<le> STOP_RADIUS_METERS" and far: "STOP_EXIT_RADIUS_METERS < d2"
    and v2: "v_latitude v2 = Some lat2" "v_longitude v2 = Some lon2" "v_route_id v2 = Some r2"
  shows "visitsOf vid sid (stopVisits (snd (recordCycles [(t1, vs1), (t2, vs2)] (eng, db))))
           = visitsOf vid sid (stopVisits db)
             @ [exitEvent t2 v2 r2 (case v_timestamp v2 of Some t \<Rightarrow> t | None \<Rightarrow> t2)
                  lat2 lon2 stop d2]
       \<and> (vid, sid) \<notin> stopInsideByVehicle (fst (recordCycles [(t1, vs1), (t2, vs2)] (eng, db)))"
proof -
  define eng1 where "eng1 = eng\<lparr> stopInsideByVehicle := containment t1 vs1 (eng, db) \<rparr>"
  define db1 where "db1 = db\<lparr> stopVisits := stopVisits db @ emitted t1 vs1 (eng, db) \<rparr>"
  define eng2 where "eng2 = eng1\<lparr> stopInsideByVehicle := containment t2 vs2 (eng1, db1) \<rparr>"
  define db2 where "db2 = db1\<lparr> stopVisits := stopVisits db1 @ emitted t2 vs2 (eng1, db1) \<rparr>"
  have run: "recordCycles [(t1, vs1), (t2, vs2)] (eng, db) = (eng2, db2)"
    by (simp add: recordCycles_def after_cycle eng1_def db1_def eng2_def db2_def)
  obtain la lo r where v1: "v_latitude v1 = Some la" "v_longitude v1 = Some lo" "v_route_id v1 = Some r"
    using stopsChecked_fields [OF c1] by blast
  have "((vid, sid) \<in> containment t1 vs1 (eng, db), visitsOf vid sid (emitted t1 vs1 (eng, db)))
        = pairVisit eng t1 v1 sid ((vid, sid) \<in> stopInsideByVehicle eng, [])"
    using pair_cycle [OF co ne, of vid sid t1 vs1 db] by (simp add: f1)
  also have "\<dots> = (True, [])"
    using near
    by (simp add: pairVisit_checked [OF c1 stop v1 d1] pairCheck_def
        STOP_RADIUS_METERS_def STOP_EXIT_RADIUS_METERS_def)
  finally have one: "(vid, sid) \<in> containment t1 vs1 (eng, db)"
    "visitsOf vid sid (emitted t1 vs1 (eng, db)) = []" by simp_all
  have co1: "cachesCoherent eng1" and ne1: "stopsCache eng1 \<noteq> []"
    using co ne by (simp_all add: eng1_def)
  have "((vid, sid) \<in> containment t2 vs2 (eng1, db1), visitsOf vid sid (emitted t2 vs2 (eng1, db1)))
        = pairVisit eng t2 v2 sid ((vid, sid) \<in> stopInsideByVehicle eng1, [])"
    using pair_cycle [OF co1 ne1, of vid sid t2 vs2 db1] by (simp add: f2 eng1_def)
  also have "\<dots> = (False, [exitEvent t2 v2 r2 (case v_timestamp v2 of Some t \<Rightarrow> t | None \<Rightarrow> t2)
                  lat2 lon2 stop d2])"
    using far one(1)
    by (simp add: pairVisit_checked [OF c2 stop v2 d2] pairCheck_def eng1_def)
  finally have two: "(vid, sid) \<notin> containment t2 vs2 (eng1, db1)"
    "visitsOf vid sid (emitted t2 vs2 (eng1, db1))
       = [exitEvent t2 v2 r2 (case v_timestamp v2 of Some t \<Rightarrow> t | None \<Rightarrow> t2) lat2 lon2 stop d2]"
    by simp_all
  show ?thesis
    unfolding run using one two by (simp add: eng2_def db2_def db1_def)
qed

lemma cachesCoherent_buildStaticCaches:
  "cachesCoherent (buildStaticCaches tripsData stopsData stopTimesData eng)"
  by (simp add: cachesCoherent_def buildStaticCaches_def)

lemma cachesCoherent_loadStopsCache: "cachesCoherent (fst (loadStopsCache (eng, db)))"
  by (simp add: cachesCoherent_def loadStopsCache_def Let_def)

lemma cachesCoherent_initialEngine: "cachesCoherent initialEngine"
  by (simp add: cachesCoherent_def initialEngine_def newMap_def)

lemma exampleEngine_facts:
  "cachesCoherent exampleEngine"
  "stopsCache exampleEngine \<noteq> []"
  "stopById exampleEngine 42 = Some (stopAt 42 0 0)"
  "stopInsideByVehicle exampleEngine = {}"
  "stopsChecked exampleEngine (vehicleAt i 7 ''T'' la lo) = [42]"
  by (simp_all add: exampleEngine_def cachesCoherent_buildStaticCaches)
     (simp_all add: buildStaticCaches_def newMap_def stopAt_def initialEngine_def
        stopsChecked_def vehicleAt_def tripOf_def stopTimeOf_def setAdd_def)

text \<open>
  Claim C1. Hysteresis. For coherent caches and a cached stop: over any number of
  cycles in which every report of the vehicle lies at a distance from the stop
  strictly above the entry radius of 50 m and not above the exit radius of 60 m (as
  55 m and 58 m do), \<open>recordStopVisits\<close> adds no visit of the vehicle at the stop;
  and when the vehicle, on a trip that serves the stop, reports once at 40 m in one
  cycle and once at 65 m in the next, the two cycles add exactly one visit of the
  vehicle at the stop, the exit event of the second cycle.
\<close>

theorem detector_hysteresis:
  assumes "cachesCoherent eng" and "stopById eng sid = Some stop"
  shows
    "((\<forall>c \<in> set cycles. \<forall>v \<in> set (snd c). v_id v = vid \<longrightarrow>
         (\<exists>d. distanceTo stop v = Some d \<and> STOP_RADIUS_METERS < d
               \<and> d \<le> STOP_EXIT_RADIUS_METERS))
      \<longrightarrow> visitsOf vid sid (stopVisits (snd (recordCycles cycles (eng, db))))
            = visitsOf vid sid (stopVisits db))
     \<and> (stopsCache eng \<noteq> []
        \<and> filter (\<lambda>v. v_id v = vid) vs1 = [v1] \<and> filter (\<lambda>v. v_id v = vid) vs2 = [v2]
        \<and> sid \<in> set (stopsChecked eng v1) \<and> sid \<in> set (stopsChecked eng v2)
        \<and> distanceTo stop v1 = Some 40 \<and> distanceTo stop v2 = Some 65
        \<and> v_latitude v2 = Some lat2 \<and> v_longitude v2 = Some lon2 \<and> v_route_id v2 = Some r2
      \<longrightarrow> visitsOf vid sid (stopVisits (snd (recordCycles [(t1, vs1), (t2, vs2)] (eng, db))))
            = visitsOf vid sid (stopVisits db)
              @ [exitEvent t2 v2 r2 (case v_timestamp v2 of Some t \<Rightarrow> t | None \<Rightarrow> t2)
                   lat2 lon2 stop 65])"
proof (intro conjI impI)
  assume "\<forall>c \<in> set cycles. \<forall>v \<in> set (snd c). v_id v = vid \<longrightarrow>
         (\<exists>d. distanceTo stop v = Some d \<and> STOP_RADIUS_METERS < d
               \<and> d \<le> STOP_EXIT_RADIUS_METERS)"
  then show "visitsOf vid sid (stopVisits (snd (recordCycles cycles (eng, db))))
            = visitsOf vid sid (stopVisits db)"
    using band_cycles [OF assms, of cycles vid db] by blast
next
  assume h: "stopsCache eng \<noteq> []
        \<and> filter (\<lambda>v. v_id v = vid) vs1 = [v1] \<and> filter (\<lambda>v. v_id v = vid) vs2 = [v2]
        \<and> sid \<in> set (stopsChecked eng v1) \<and> sid \<in> set (stopsChecked eng v2)
        \<and> distanceTo stop v1 = Some 40 \<and> distanceTo stop v2 = Some 65
        \<and> v_latitude v2 = Some lat2 \<and> v_longitude v2 = Some lon2 \<and> v_route_id v2 = Some r2"
  show "visitsOf vid sid (stopVisits (snd (recordCycles [(t1, vs1), (t2, vs2)] (eng, db))))
            = visitsOf vid sid (stopVisits db)
              @ [exitEvent t2 v2 r2 (case v_timestamp v2 of Some t \<Rightarrow> t | None \<Rightarrow> t2)
                   lat2 lon2 stop 65]"
    using exit_cycles [OF assms(1) _ assms(2), of vid vs1 v1 vs2 v2 40 65 lat2 lon2 r2 t1 t2 db] h
    by (simp add: STOP_RADIUS_METERS_def STOP_EXIT_RADIUS_METERS_def)
qed

theorem detector_hysteresis_witness:
  "distanceTo (stopAt 42 0 0) (vehicleAt 1 7 ''T'' 0 (lonAt 55)) = Some 55
   \<and> distanceTo (stopAt 42 0 0) (vehicleAt 1 7 ''T'' 0 (lonAt 58)) = Some 58
   \<and> visitsOf 1 42 (stopVisits (snd (recordCycles
        [(1000, [vehicleAt 1 7 ''T'' 0 (lonAt 55)]), (2000, [vehicleAt 1 7 ''T'' 0 (lonAt 58)]),
         (3000, [vehicleAt 1 7 ''T'' 0 (lonAt 55)])]
        (exampleEngine, emptyDatabase)))) = []
   \<and> visitsOf 1 42 (stopVisits (snd (recordCycles
        [(1000, [vehicleAt 1 7 ''T'' 0 (lonAt 40), vehicleAt 2 7 ''T'' 0 (lonAt 70)]),
         (2000, [vehicleAt 1 7 ''T'' 0 (lonAt 65)])]
        (exampleEngine, emptyDatabase))))
     = [exitEvent 2000 (vehicleAt 1 7 ''T'' 0 (lonAt 65)) 7 2000 0 (lonAt 65) (stopAt 42 0 0) 65]"
proof -
  have d: "distanceTo (stopAt 42 0 0) (vehicleAt 1 7 ''T'' 0 (lonAt 55)) = Some 55"
    "distanceTo (stopAt 42 0 0) (vehicleAt 1 7 ''T'' 0 (lonAt 58)) = Some 58"
    "distanceTo (stopAt 42 0 0) (vehicleAt 1 7 ''T'' 0 (lonAt 40)) = Some 40"
    "distanceTo (stopAt 42 0 0) (vehicleAt 1 7 ''T'' 0 (lonAt 65)) = Some 65"
    by (simp_all add: distanceTo_on_equator)
  have v: "v_id (vehicleAt i r t la lo) = i" "v_latitude (vehicleAt i r t la lo) = Some la"
    "v_longitude (vehicleAt i r t la lo) = Some lo" "v_route_id (vehicleAt i r t la lo) = Some r"
    "v_timestamp (vehicleAt i r t la lo) = None" for i r t la lo
    by (simp_all add: vehicleAt_def)
  show ?thesis
    using d
      detector_hysteresis [OF exampleEngine_facts(1) exampleEngine_facts(3),
        of "[(1000, [vehicleAt 1 7 ''T'' 0 (lonAt 55)]), (2000, [vehicleAt 1 7 ''T'' 0 (lonAt 58)]),
         (3000, [vehicleAt 1 7 ''T'' 0 (lonAt 55)])]" 1 emptyDatabase
         "[vehicleAt 1 7 ''T'' 0 (lonAt 40), vehicleAt 2 7 ''T'' 0 (lonAt 70)]"
         "vehicleAt 1 7 ''T'' 0 (lonAt 40)"
         "[vehicleAt 1 7 ''T'' 0 (lonAt 65)]" "vehicleAt 1 7 ''T'' 0 (lonAt 65)"
         0 "lonAt 65" 7 1000 2000]
    by (simp add: v exampleEngine_facts STOP_RADIUS_METERS_def STOP_EXIT_RADIUS_METERS_def
        emptyDatabase_def visitsOf_def)
qed

lemma fst_pairVisit_idem:
  "fst (pairVisit eng f2 v sid (fst (pairVisit eng f1 v sid st), evs))
     = fst (pairVisit eng f1 v sid st)"
  by (cases st)
     (auto simp add: pairVisit_def pairCheck_def STOP_RADIUS_METERS_def
        STOP_EXIT_RADIUS_METERS_def split: option.splits)

lemma snd_pairVisit_again:
  "snd (pairVisit eng f2 v sid (fst (pairVisit eng f1 v sid st), [])) = []"
  by (cases st)
     (auto simp add: pairVisit_def pairCheck_def STOP_RADIUS_METERS_def
        STOP_EXIT_RADIUS_METERS_def split: option.splits)

lemma pairVisit_emits:
  assumes "snd (pairVisit eng f v sid (m, [])) \<noteq> []"
  shows "m \<and> \<not> fst (pairVisit eng f v sid (m, []))"
  using assms
  by (auto simp add: pairVisit_def pairCheck_def split: option.splits if_splits)

lemma filter_distinct_key:
  assumes "distinct (map g xs)"
  shows "filter (\<lambda>x. g x = a) xs = [] \<or> (\<exists>x. filter (\<lambda>x. g x = a) xs = [x])"
  using assms
proof (induction xs)
  case Nil
  then show ?case by simp
next
  case (Cons x xs)
  show ?case
  proof (cases "g x = a")
    case True
    with Cons.prems have "a \<notin> g ` set xs" by simp
    then have "\<forall>y \<in> set xs. g y \<noteq> a" by blast
    then have "filter (\<lambda>x. g x = a) xs = []" by (simp add: filter_empty_conv)
    with True show ?thesis by simp
  next
    case False
    with Cons show ?thesis by simp
  qed
qed

lemma emitted_only_on_exit:
  assumes co: "cachesCoherent eng" and di: "distinct (map v_id vs)"
    and e: "e \<in> set (emitted f vs (eng, db))"
  shows "(sv_vehicleId e, sv_stopId e) \<in> stopInsideByVehicle eng
       \<and> (sv_vehicleId e, sv_stopId e) \<notin> containment f vs (eng, db)"
proof -
  define a where "a = sv_vehicleId e"
  define b where "b = sv_stopId e"
  have ne: "stopsCache eng \<noteq> []" using e by (auto simp add: emitted_eq split: if_splits)
  have ev: "visitsOf a b (emitted f vs (eng, db)) \<noteq> []"
    using e by (auto simp add: visitsOf_def a_def b_def filter_empty_conv)
  note pc = pair_cycle [OF co ne, of a b f vs db]
  from filter_distinct_key [OF di, of a]
  show ?thesis
  proof
    assume "filter (\<lambda>x. v_id x = a) vs = []"
    with pc ev show ?thesis by simp
  next
    assume "\<exists>x. filter (\<lambda>x. v_id x = a) vs = [x]"
    then obtain v where v: "filter (\<lambda>x. v_id x = a) vs = [v]" by blast
    with pc have eq: "((a, b) \<in> containment f vs (eng, db), visitsOf a b (emitted f vs (eng, db)))
        = pairVisit eng f v b ((a, b) \<in> stopInsideByVehicle eng, [])" by simp
    then have "snd (pairVisit eng f v b ((a, b) \<in> stopInsideByVehicle eng, [])) \<noteq> []"
      using ev by (metis snd_conv)
    from pairVisit_emits [OF this] eq show ?thesis
      by (metis a_def b_def fst_conv)
  qed
qed

lemma entry_twice:
  assumes co: "cachesCoherent eng" and ne: "stopsCache eng \<noteq> []"
    and stop: "stopById eng sid = Some stop"
    and out: "(vid, sid) \<notin> stopInsideByVehicle eng"
    and f1: "filter (\<lambda>x. v_id x = vid) vs1 = [v]"
    and f2: "filter (\<lambda>x. v_id x = vid) vs2 = [v]"
    and chk: "sid \<in> set (stopsChecked eng v)"
    and d: "distanceTo stop v = Some d" and near: "d \<le> STOP_RADIUS_METERS"
  shows "(vid, sid) \<in> containment t1 vs1 (eng, db)"
    and "visitsOf vid sid (emitted t1 vs1 (eng, db)) = []"
    and "visitsOf vid sid (emitted t2 vs2 (snd (recordStopVisits t1 vs1 (eng, db)))) = []"
    and "((vid, s) \<in> containment t2 vs2 (snd (recordStopVisits t1 vs1 (eng, db))))
           = ((vid, s) \<in> containment t1 vs1 (eng, db))"
    and "(\<forall>x \<in> set vs2. v_id x = vid) \<Longrightarrow>
           containment t2 vs2 (snd (recordStopVisits t1 vs1 (eng, db)))
             = containment t1 vs1 (eng, db)"
proof -
  define eng1 where "eng1 = eng\<lparr> stopInsideByVehicle := containment t1 vs1 (eng, db) \<rparr>"
  define db1 where "db1 = db\<lparr> stopVisits := stopVisits db @ emitted t1 vs1 (eng, db) \<rparr>"
  have s1: "snd (recordStopVisits t1 vs1 (eng, db)) = (eng1, db1)"
    by (simp add: after_cycle eng1_def db1_def)
  have co1: "cachesCoherent eng1" and ne1: "stopsCache eng1 \<noteq> []"
    using co ne by (simp_all add: eng1_def)
  obtain la lo r where vf: "v_latitude v = Some la" "v_longitude v = Some lo" "v_route_id v = Some r"
    using stopsChecked_fields [OF chk] by blast
  have one: "((vid, s') \<in> containment t1 vs1 (eng, db), visitsOf vid s' (emitted t1 vs1 (eng, db)))
        = pairVisit eng t1 v s' ((vid, s') \<in> stopInsideByVehicle eng, [])" for s'
    using pair_cycle [OF co ne, of vid s' t1 vs1 db] by (simp add: f1)
  have two: "((vid, s') \<in> containment t2 vs2 (eng1, db1), visitsOf vid s' (emitted t2 vs2 (eng1, db1)))
        = pairVisit eng t2 v s' ((vid, s') \<in> containment t1 vs1 (eng, db), [])" for s'
    using pair_cycle [OF co1 ne1, of vid s' t2 vs2 db1] by (simp add: f2 eng1_def)
  have "pairVisit eng t1 v sid ((vid, sid) \<in> stopInsideByVehicle eng, []) = (True, [])"
    using near out
    by (simp add: pairVisit_checked [OF chk stop vf d] pairCheck_def)
  with one [of sid] show a: "(vid, sid) \<in> containment t1 vs1 (eng, db)"
    and "visitsOf vid sid (emitted t1 vs1 (eng, db)) = []" by simp_all
  have m1: "((vid, s') \<in> containment t1 vs1 (eng, db))
        = fst (pairVisit eng t1 v s' ((vid, s') \<in> stopInsideByVehicle eng, []))" for s'
    using one [of s'] by (metis fst_conv)
  have "visitsOf vid s' (emitted t2 vs2 (eng1, db1)) = []" for s'
    using two [of s'] snd_pairVisit_again [of eng t2 v s' t1 "((vid, s') \<in> stopInsideByVehicle eng, [])"]
    unfolding m1 by (metis snd_conv)
  then show "visitsOf vid sid (emitted t2 vs2 (snd (recordStopVisits t1 vs1 (eng, db)))) = []"
    by (simp add: s1)
  have slice: "((vid, s') \<in> containment t2 vs2 (eng1, db1)) = ((vid, s') \<in> containment t1 vs1 (eng, db))" for s'
    using two [of s'] fst_pairVisit_idem [of eng t2 v s' t1 "((vid, s') \<in> stopInsideByVehicle eng, [])" "[]"]
    unfolding m1 by (metis fst_conv)
  then show "((vid, s) \<in> containment t2 vs2 (snd (recordStopVisits t1 vs1 (eng, db))))
           = ((vid, s) \<in> containment t1 vs1 (eng, db))"
    by (simp add: s1)
  show "containment t2 vs2 (snd (recordStopVisits t1 vs1 (eng, db))) = containment t1 vs1 (eng, db)"
    if all: "\<forall>x \<in> set vs2. v_id x = vid"
  proof -
    have "(p \<in> containment t2 vs2 (eng1, db1)) = (p \<in> containment t1 vs1 (eng, db))" for p
    proof (cases p)
      case (Pair a b)
      show ?thesis
      proof (cases "a = vid")
        case True
        then show ?thesis using slice [of b] by (simp add: Pair)
      next
        case False
        then have "filter (\<lambda>x. v_id x = a) vs2 = []"
          using all by (auto simp add: filter_empty_conv)
        then show ?thesis
          using pair_cycle [OF co1 ne1, of a b t2 vs2 db1] by (simp add: Pair eng1_def)
      qed
    qed
    then show ?thesis by (auto simp add: s1)
  qed
qed

lemma skipped_visitVehicle:
  assumes "skipped eng v"
  shows "visitVehicle eng f v s = s"
  using assms
  by (auto simp add: skipped_def visitVehicle_def split: option.splits)

lemma skipped_stopsChecked:
  assumes "skipped eng v"
  shows "stopsChecked eng v = []"
  using assms
  by (auto simp add: skipped_def stopsChecked_def split: option.splits)

lemma visitStop_other_vehicle:
  assumes "v_id veh \<noteq> vid"
  shows "((vid, sid) \<in> fst (visitStop byId f veh r ob lat lon k st)) = ((vid, sid) \<in> fst st)
       \<and> filter (\<lambda>e. sv_vehicleId e = vid) (snd (visitStop byId f veh r ob lat lon k st))
           = filter (\<lambda>e. sv_vehicleId e = vid) (snd st)"
  using assms
  by (cases st) (auto simp add: visitStop_def Let_def exitEvent_def split: option.splits)

lemma fold_visitStop_other_vehicle:
  assumes "v_id veh \<noteq> vid"
  shows "((vid, sid) \<in> fst (fold (visitStop byId f veh r ob lat lon) ks st)) = ((vid, sid) \<in> fst st)
       \<and> filter (\<lambda>e. sv_vehicleId e = vid) (snd (fold (visitStop byId f veh r ob lat lon) ks st))
           = filter (\<lambda>e. sv_vehicleId e = vid) (snd st)"
proof (induction ks arbitrary: st)
  case Nil
  then show ?case by simp
next
  case (Cons k ks)
  define st1 where "st1 = visitStop byId f veh r ob lat lon k st"
  have one: "((vid, sid) \<in> fst st1) = ((vid, sid) \<in> fst st)
       \<and> filter (\<lambda>e. sv_vehicleId e = vid) (snd st1) = filter (\<lambda>e. sv_vehicleId e = vid) (snd st)"
    unfolding st1_def by (rule visitStop_other_vehicle [OF assms])
  have rest: "((vid, sid) \<in> fst (fold (visitStop byId f veh r ob lat lon) ks st1)) = ((vid, sid) \<in> fst st1)
       \<and> filter (\<lambda>e. sv_vehicleId e = vid) (snd (fold (visitStop byId f veh r ob lat lon) ks st1))
           = filter (\<lambda>e. sv_vehicleId e = vid) (snd st1)"
    by (rule Cons.IH)
  show ?case using one rest by (simp add: st1_def)
qed

lemma visitVehicle_other_vehicle:
  assumes "v_id v \<noteq> vid \<or> skipped eng v"
  shows "((vid, sid) \<in> fst (visitVehicle eng f v st)) = ((vid, sid) \<in> fst st)
       \<and> filter (\<lambda>e. sv_vehicleId e = vid) (snd (visitVehicle eng f v st))
           = filter (\<lambda>e. sv_vehicleId e = vid) (snd st)"
proof (cases "skipped eng v")
  case True
  then show ?thesis by (simp add: skipped_visitVehicle)
next
  case False
  with assms have "v_id v \<noteq> vid" by simp
  then show ?thesis
    by (auto simp add: visitVehicle_def Let_def fold_visitStop_other_vehicle split: option.splits)
qed

lemma fold_visitVehicle_skipped:
  assumes "\<And>v. v \<in> set vs \<Longrightarrow> v_id v = vid \<Longrightarrow> skipped eng v"
  shows "((vid, sid) \<in> fst (fold (visitVehicle eng f) vs st)) = ((vid, sid) \<in> fst st)
       \<and> filter (\<lambda>e. sv_vehicleId e = vid) (snd (fold (visitVehicle eng f) vs st))
           = filter (\<lambda>e. sv_vehicleId e = vid) (snd st)"
  using assms
proof (induction vs arbitrary: st)
  case Nil
  then show ?case by simp
next
  case (Cons v vs)
  define st1 where "st1 = visitVehicle eng f v st"
  have "v_id v \<noteq> vid \<or> skipped eng v" using Cons.prems [of v] by auto
  then have one: "((vid, sid) \<in> fst st1) = ((vid, sid) \<in> fst st)
       \<and> filter (\<lambda>e. sv_vehicleId e = vid) (snd st1) = filter (\<lambda>e. sv_vehicleId e = vid) (snd st)"
    unfolding st1_def by (rule visitVehicle_other_vehicle)
  have rest: "((vid, sid) \<in> fst (fold (visitVehicle eng f) vs st1)) = ((vid, sid) \<in> fst st1)
       \<and> filter (\<lambda>e. sv_vehicleId e = vid) (snd (fold (visitVehicle eng f) vs st1))
           = filter (\<lambda>e. sv_vehicleId e = vid) (snd st1)"
    using Cons.prems by (intro Cons.IH) simp_all
  show ?case using one rest by (simp add: st1_def)
qed

lemma skipped_cycle:
  assumes "\<And>v. v \<in> set vs \<Longrightarrow> v_id v = vid \<Longrightarrow> skipped eng v"
  shows "filter (\<lambda>e. sv_vehicleId e = vid) (emitted f vs (eng, db)) = []"
    and "((vid, sid) \<in> containment f vs (eng, db)) = ((vid, sid) \<in> stopInsideByVehicle eng)"
proof -
  have "((vid, sid) \<in> fst (fold (visitVehicle eng f) vs (stopInsideByVehicle eng, [])))
          = ((vid, sid) \<in> fst (stopInsideByVehicle eng, ([] :: StopVisit list)))
       \<and> filter (\<lambda>e. sv_vehicleId e = vid) (snd (fold (visitVehicle eng f) vs (stopInsideByVehicle eng, [])))
           = filter (\<lambda>e. sv_vehicleId e = vid) (snd (stopInsideByVehicle eng, ([] :: StopVisit list)))"
    using assms by (rule fold_visitVehicle_skipped)
  then show "filter (\<lambda>e. sv_vehicleId e = vid) (emitted f vs (eng, db)) = []"
    and "((vid, sid) \<in> containment f vs (eng, db)) = ((vid, sid) \<in> stopInsideByVehicle eng)"
    by (simp_all add: emitted_eq containment_eq detectVisits_def)
qed

lemma visitStop_events:
  assumes keyed: "\<And>k s. byId k = Some s \<Longrightarrow> stop_id s = k"
    and "e \<in> set (snd (visitStop byId f veh r ob lat lon k st))"
  shows "e \<in> set (snd st)
       \<or> (sv_vehicleId e = v_id veh \<and> sv_routeId e = Some r \<and> sv_tripId e = v_trip_id veh
          \<and> sv_stopId e = k)"
proof (cases "byId k")
  case None
  with assms(2) show ?thesis by (cases st) (simp add: visitStop_def)
next
  case (Some stop)
  with keyed have "stop_id stop = k" by simp
  with assms(2) Some show ?thesis
    by (cases st) (auto simp add: visitStop_def Let_def exitEvent_def split: if_splits)
qed

lemma fold_visitStop_events:
  assumes keyed: "\<And>k s. byId k = Some s \<Longrightarrow> stop_id s = k"
    and "e \<in> set (snd (fold (visitStop byId f veh r ob lat lon) ks st))"
  shows "e \<in> set (snd st)
       \<or> (sv_vehicleId e = v_id veh \<and> sv_routeId e = Some r \<and> sv_tripId e = v_trip_id veh
          \<and> sv_stopId e \<in> set ks)"
  using assms(2)
proof (induction ks arbitrary: st)
  case Nil
  then show ?case by simp
next
  case (Cons k ks)
  define st1 where "st1 = visitStop byId f veh r ob lat lon k st"
  from Cons.prems have "e \<in> set (snd (fold (visitStop byId f veh r ob lat lon) ks st1))"
    by (simp add: st1_def)
  from Cons.IH [OF this] have "e \<in> set (snd st1)
       \<or> (sv_vehicleId e = v_id veh \<and> sv_routeId e = Some r \<and> sv_tripId e = v_trip_id veh
          \<and> sv_stopId e \<in> set ks)" .
  moreover have "e \<in> set (snd st)
       \<or> (sv_vehicleId e = v_id veh \<and> sv_routeId e = Some r \<and> sv_tripId e = v_trip_id veh
          \<and> sv_stopId e = k)" if "e \<in> set (snd st1)"
    using visitStop_events [OF keyed that [unfolded st1_def]] .
  ultimately show ?case by auto
qed

lemma visitVehicle_events:
  assumes "cachesCoherent eng" and "e \<in> set (snd (visitVehicle eng f v st))"
  shows "e \<in> set (snd st)
       \<or> (sv_vehicleId e = v_id v \<and> sv_routeId e = v_route_id v \<and> sv_tripId e = v_trip_id v
          \<and> sv_stopId e \<in> set (stopsChecked eng v))"
proof (cases "stopsChecked eng v = []")
  case True
  then have "visitVehicle eng f v st = st"
    by (auto simp add: visitVehicle_def stopsChecked_def split: option.splits if_splits)
  with assms(2) show ?thesis by simp
next
  case False
  then obtain sid where "sid \<in> set (stopsChecked eng v)" by (cases "stopsChecked eng v") auto
  from stopsChecked_fields [OF this] obtain lat lon r t info ks where
    v: "v_latitude v = Some lat" "v_longitude v = Some lon" "v_route_id v = Some r"
       "v_trip_id v = Some t" "t \<noteq> []" "tripByIdCache eng t = Some info" "ti_routeId info = r"
       "stopIdsByTripId eng t = Some ks" by blast
  have sc: "stopsChecked eng v = ks" using v by (simp add: stopsChecked_def)
  with False have "ks \<noteq> []" by simp
  then have vv: "visitVehicle eng f v st =
      fold (visitStop (stopById eng) f v r (case v_timestamp v of Some t \<Rightarrow> t | None \<Rightarrow> f) lat lon)
        ks st"
    using v by (simp add: visitVehicle_def)
  have keyed: "\<And>k s. stopById eng k = Some s \<Longrightarrow> stop_id s = k"
    using assms(1) by (rule cachesCoherent_keyed)
  have "e \<in> set (snd st)
       \<or> (sv_vehicleId e = v_id v \<and> sv_routeId e = Some r \<and> sv_tripId e = v_trip_id v
          \<and> sv_stopId e \<in> set ks)"
    using fold_visitStop_events [OF keyed assms(2) [unfolded vv]] .
  then show ?thesis using v(3) sc by simp
qed

lemma fold_visitVehicle_events:
  assumes "cachesCoherent eng" and "e \<in> set (snd (fold (visitVehicle eng f) vs st))"
  shows "e \<in> set (snd st)
       \<or> (\<exists>v \<in> set vs. sv_vehicleId e = v_id v \<and> sv_routeId e = v_route_id v
            \<and> sv_tripId e = v_trip_id v \<and> sv_stopId e \<in> set (stopsChecked eng v))"
  using assms(2)
proof (induction vs arbitrary: st)
  case Nil
  then show ?case by simp
next
  case (Cons v vs)
  define st1 where "st1 = visitVehicle eng f v st"
  from Cons.prems have "e \<in> set (snd (fold (visitVehicle eng f) vs st1))"
    by (simp add: st1_def)
  from Cons.IH [OF this] have "e \<in> set (snd st1)
       \<or> (\<exists>v \<in> set vs. sv_vehicleId e = v_id v \<and> sv_routeId e = v_route_id v
            \<and> sv_tripId e = v_trip_id v \<and> sv_stopId e \<in> set (stopsChecked eng v))" .
  moreover have "e \<in> set (snd st)
       \<or> (sv_vehicleId e = v_id v \<and> sv_routeId e = v_route_id v \<and> sv_tripId e = v_trip_id v
          \<and> sv_stopId e \<in> set (stopsChecked eng v))" if "e \<in> set (snd st1)"
    using visitVehicle_events [OF assms(1) that [unfolded st1_def]] .
  ultimately show ?case by auto
qed

lemma emitted_provenance:
  assumes "cachesCoherent eng" and "e \<in> set (emitted f vs (eng, db))"
  shows "\<exists>v \<in> set vs. \<exists>t info ks.
           sv_vehicleId e = v_id v \<and> v_trip_id v = Some t \<and> sv_tripId e = Some t
           \<and> tripByIdCache eng t = Some info \<and> v_route_id v = Some (ti_routeId info)
           \<and> sv_routeId e = Some (ti_routeId info)
           \<and> stopIdsByTripId eng t = Some ks \<and> sv_stopId e \<in> set ks \<and> \<not> skipped eng v"
proof -
  from assms(2) have "e \<in> set (snd (fold (visitVehicle eng f) vs (stopInsideByVehicle eng, [])))"
    by (auto simp add: emitted_eq detectVisits_def split: if_splits)
  from fold_visitVehicle_events [OF assms(1) this]
  obtain v where v: "v \<in> set vs" "sv_vehicleId e = v_id v" "sv_routeId e = v_route_id v"
     "sv_tripId e = v_trip_id v" "sv_stopId e \<in> set (stopsChecked eng v)" by auto
  from stopsChecked_fields [OF v(5)] obtain t info ks where
    f: "v_route_id v = Some (ti_routeId info)" "v_trip_id v = Some t"
       "tripByIdCache eng t = Some info" "stopIdsByTripId eng t = Some ks"
       "sv_stopId e \<in> set ks" by blast
  have "\<not> skipped eng v" using v(5) skipped_stopsChecked [of eng v] by auto
  with v f show ?thesis by (intro bexI [of _ v]) auto
qed

text \<open>
  Claim C3. Idempotence of entry. From a state where the pair is outside, a report
  of the vehicle within the entry radius of a stop of its trip, fed in two successive
  cycles, puts the pair inside in the first cycle; neither cycle emits a visit of the
  pair; the second cycle leaves the containment of every pair of the vehicle as the
  first left it, and the whole containment set when the cycle holds no other
  vehicle. An emitted event is always an exit: in a cycle of distinct vehicles its
  pair was inside before the cycle and is outside after it.
\<close>

theorem containment_entry_idempotent:
  assumes "cachesCoherent eng" and "stopsCache eng \<noteq> []"
    and "stopById eng sid = Some stop"
    and "(vid, sid) \<notin> stopInsideByVehicle eng"
    and "filter (\<lambda>x. v_id x = vid) vs1 = [v]"
    and "filter (\<lambda>x. v_id x = vid) vs2 = [v]"
    and "sid \<in> set (stopsChecked eng v)"
    and "distanceTo stop v = Some d" and "d \<le> STOP_RADIUS_METERS"
  shows "(vid, sid) \<in> containment t1 vs1 (eng, db)
     \<and> visitsOf vid sid (emitted t1 vs1 (eng, db)) = []
     \<and> visitsOf vid sid (emitted t2 vs2 (snd (recordStopVisits t1 vs1 (eng, db)))) = []
     \<and> (\<forall>s. ((vid, s) \<in> containment t2 vs2 (snd (recordStopVisits t1 vs1 (eng, db))))
              = ((vid, s) \<in> containment t1 vs1 (eng, db)))
     \<and> ((\<forall>x \<in> set vs2. v_id x = vid) \<longrightarrow>
          containment t2 vs2 (snd (recordStopVisits t1 vs1 (eng, db)))
            = containment t1 vs1 (eng, db))
     \<and> (distinct (map v_id vs) \<longrightarrow>
          (\<forall>e \<in> set (emitted t vs (eng, db)).
             (sv_vehicleId e, sv_stopId e) \<in> stopInsideByVehicle eng
             \<and> (sv_vehicleId e, sv_stopId e) \<notin> containment t vs (eng, db)))"
proof -
  note tw = entry_twice [OF assms]
  have "(sv_vehicleId e, sv_stopId e) \<in> stopInsideByVehicle eng
        \<and> (sv_vehicleId e, sv_stopId e) \<notin> containment t vs (eng, db)"
    if "distinct (map v_id vs)" and "e \<in> set (emitted t vs (eng, db))" for e
    using assms(1) that by (rule emitted_only_on_exit)
  then show ?thesis
    using tw by blast
qed

theorem containment_entry_idempotent_witness:
  "(1, 42) \<in> containment 1000 [vehicleAt 1 7 ''T'' 0 (lonAt 30)]
        (exampleEngine\<lparr> stopInsideByVehicle := {(2, 42)} \<rparr>, emptyDatabase)
   \<and> visitsOf 1 42 (emitted 1000 [vehicleAt 1 7 ''T'' 0 (lonAt 30)]
        (exampleEngine\<lparr> stopInsideByVehicle := {(2, 42)} \<rparr>, emptyDatabase)) = []
   \<and> visitsOf 1 42 (emitted 2000 [vehicleAt 1 7 ''T'' 0 (lonAt 30)]
        (snd (recordStopVisits 1000 [vehicleAt 1 7 ''T'' 0 (lonAt 30)]
           (exampleEngine\<lparr> stopInsideByVehicle := {(2, 42)} \<rparr>, emptyDatabase)))) = []
   \<and> containment 2000 [vehicleAt 1 7 ''T'' 0 (lonAt 30)]
        (snd (recordStopVisits 1000 [vehicleAt 1 7 ''T'' 0 (lonAt 30)]
           (exampleEngine\<lparr> stopInsideByVehicle := {(2, 42)} \<rparr>, emptyDatabase)))
      = containment 1000 [vehicleAt 1 7 ''T'' 0 (lonAt 30)]
        (exampleEngine\<lparr> stopInsideByVehicle := {(2, 42)} \<rparr>, emptyDatabase)
   \<and> emitted 3000 [vehicleAt 2 7 ''T'' 0 (lonAt 65)]
        (exampleEngine\<lparr> stopInsideByVehicle := {(2, 42)} \<rparr>, emptyDatabase)
      = [exitEvent 3000 (vehicleAt 2 7 ''T'' 0 (lonAt 65)) 7 3000 0 (lonAt 65) (stopAt 42 0 0) 65]
   \<and> (2, 42) \<notin> containment 3000 [vehicleAt 2 7 ''T'' 0 (lonAt 65)]
        (exampleEngine\<lparr> stopInsideByVehicle := {(2, 42)} \<rparr>, emptyDatabase)"
proof -
  define eng where "eng = exampleEngine\<lparr> stopInsideByVehicle := {(2, 42)} \<rparr>"
  define v where "v = vehicleAt 1 7 ''T'' 0 (lonAt 30)"
  define w where "w = vehicleAt 2 7 ''T'' 0 (lonAt 65)"
  have h: "cachesCoherent eng" "stopsCache eng \<noteq> []" "stopById eng 42 = Some (stopAt 42 0 0)"
    "(1, 42) \<notin> stopInsideByVehicle eng" "filter (\<lambda>x. v_id x = 1) [v] = [v]"
    "42 \<in> set (stopsChecked eng v)" "distanceTo (stopAt 42 0 0) v = Some 30"
    "30 \<le> STOP_RADIUS_METERS"
    by (simp_all add: eng_def v_def exampleEngine_facts distanceTo_on_equator
        STOP_RADIUS_METERS_def)
       (simp add: vehicleAt_def)
  have hav: "haversineMeters 0 (lonAt 65) 0 0 = 65" by (simp add: haversine_on_equator)
  have em: "emitted 3000 [w] (eng, emptyDatabase)
      = [exitEvent 3000 w 7 3000 0 (lonAt 65) (stopAt 42 0 0) 65]"
    using h(2)
    by (simp add: emitted_eq detectVisits_def)
       (simp add: eng_def w_def visitVehicle_def visitStop_def exampleEngine_def
          buildStaticCaches_def newMap_def vehicleAt_def stopAt_def tripOf_def stopTimeOf_def
          setAdd_def initialEngine_def hav STOP_EXIT_RADIUS_METERS_def Let_def)
  have di: "distinct (map v_id [w])" "\<forall>x \<in> set [v]. v_id x = 1"
    "v_id w = 2" "stop_id (stopAt 42 0 0) = 42"
    by (simp_all add: v_def w_def vehicleAt_def stopAt_def)
  from containment_entry_idempotent [OF h(1,2,3,4,5,5,6,7,8), of 1000 emptyDatabase 2000 "[w]" 3000]
  show ?thesis
    using di em
    by (simp add: eng_def [symmetric] v_def [symmetric] w_def [symmetric] exitEvent_def)
qed

text \<open>
  Claim C2. Skip invariant. A vehicle without a trip identifier, with a trip unknown
  to the cache, with an empty stop set, or with a cached trip route other than the
  reported route passes through the detector without any change of the containment
  set or the events; a cycle in which every report of a vehicle is of that kind emits
  no event of the vehicle and leaves the containment of each of its pairs; and, for
  coherent caches, every emitted event belongs to a report of the cycle whose trip is
  cached with the reported route and whose stop set contains the event's stop.
\<close>

theorem skip_invariant:
  "(skipped eng v \<longrightarrow> visitVehicle eng f v s = s)
   \<and> ((\<forall>x \<in> set vs. v_id x = vid \<longrightarrow> skipped eng x) \<longrightarrow>
        filter (\<lambda>e. sv_vehicleId e = vid) (emitted f vs (eng, db)) = []
        \<and> (\<forall>sid. ((vid, sid) \<in> containment f vs (eng, db))
                   = ((vid, sid) \<in> stopInsideByVehicle eng)))
   \<and> (cachesCoherent eng \<longrightarrow>
        (\<forall>e \<in> set (emitted f vs (eng, db)).
           \<exists>x \<in> set vs. \<exists>t info ks.
             sv_vehicleId e = v_id x \<and> v_trip_id x = Some t \<and> sv_tripId e = Some t
             \<and> tripByIdCache eng t = Some info \<and> v_route_id x = Some (ti_routeId info)
             \<and> sv_routeId e = Some (ti_routeId info)
             \<and> stopIdsByTripId eng t = Some ks \<and> sv_stopId e \<in> set ks
             \<and> \<not> skipped eng x))"
proof (intro conjI impI allI ballI)
  assume "skipped eng v"
  then show "visitVehicle eng f v s = s" by (rule skipped_visitVehicle)
next
  assume a: "\<forall>x \<in> set vs. v_id x = vid \<longrightarrow> skipped eng x"
  then have b: "\<And>x. x \<in> set vs \<Longrightarrow> v_id x = vid \<Longrightarrow> skipped eng x" by blast
  show "filter (\<lambda>e. sv_vehicleId e = vid) (emitted f vs (eng, db)) = []"
    using b by (rule skipped_cycle(1))
  fix sid
  show "((vid, sid) \<in> containment f vs (eng, db)) = ((vid, sid) \<in> stopInsideByVehicle eng)"
    using b by (rule skipped_cycle(2))
next
  fix e
  assume "cachesCoherent eng" "e \<in> set (emitted f vs (eng, db))"
  then show "\<exists>x \<in> set vs. \<exists>t info ks.
             sv_vehicleId e = v_id x \<and> v_trip_id x = Some t \<and> sv_tripId e = Some t
             \<and> tripByIdCache eng t = Some info \<and> v_route_id x = Some (ti_routeId info)
             \<and> sv_routeId e = Some (ti_routeId info)
             \<and> stopIdsByTripId eng t = Some ks \<and> sv_stopId e \<in> set ks
             \<and> \<not> skipped eng x"
    by (rule emitted_provenance)
qed


theorem skip_invariant_witness:
  "skipped (exampleEngine\<lparr> stopInsideByVehicle := {(1, 42), (2, 42)} \<rparr>)
     (vehicleAt 1 8 ''T'' 0 (lonAt 65))
   \<and> visitVehicle (exampleEngine\<lparr> stopInsideByVehicle := {(1, 42), (2, 42)} \<rparr>) 1000
        (vehicleAt 1 8 ''T'' 0 (lonAt 65)) ({(1, 42), (2, 42)}, [])
      = ({(1, 42), (2, 42)}, [])
   \<and> filter (\<lambda>e. sv_vehicleId e = 1)
        (emitted 1000 [vehicleAt 1 8 ''T'' 0 (lonAt 65), vehicleAt 2 7 ''T'' 0 (lonAt 65)]
           (exampleEngine\<lparr> stopInsideByVehicle := {(1, 42), (2, 42)} \<rparr>, emptyDatabase)) = []
   \<and> (1, 42) \<in> containment 1000
        [vehicleAt 1 8 ''T'' 0 (lonAt 65), vehicleAt 2 7 ''T'' 0 (lonAt 65)]
        (exampleEngine\<lparr> stopInsideByVehicle := {(1, 42), (2, 42)} \<rparr>, emptyDatabase)
   \<and> emitted 1000 [vehicleAt 1 8 ''T'' 0 (lonAt 65), vehicleAt 2 7 ''T'' 0 (lonAt 65)]
        (exampleEngine\<lparr> stopInsideByVehicle := {(1, 42), (2, 42)} \<rparr>, emptyDatabase)
      = [exitEvent 1000 (vehicleAt 2 7 ''T'' 0 (lonAt 65)) 7 1000 0 (lonAt 65) (stopAt 42 0 0) 65]
   \<and> (\<exists>x \<in> set [vehicleAt 1 8 ''T'' 0 (lonAt 65), vehicleAt 2 7 ''T'' 0 (lonAt 65)].
        \<exists>t info ks. v_id x = 2 \<and> v_trip_id x = Some t
          \<and> tripByIdCache (exampleEngine\<lparr> stopInsideByVehicle := {(1, 42), (2, 42)} \<rparr>) t = Some info
          \<and> v_route_id x = Some (ti_routeId info) \<and> ti_routeId info = 7
          \<and> stopIdsByTripId (exampleEngine\<lparr> stopInsideByVehicle := {(1, 42), (2, 42)} \<rparr>) t = Some ks
          \<and> 42 \<in> set ks)"
proof -
  define eng where "eng = exampleEngine\<lparr> stopInsideByVehicle := {(1, 42), (2, 42)} \<rparr>"
  define v where "v = vehicleAt 1 8 ''T'' 0 (lonAt 65)"
  define w where "w = vehicleAt 2 7 ''T'' 0 (lonAt 65)"
  have caches: "tripByIdCache eng ''T'' = Some \<lparr> ti_routeId = 7, ti_directionId = 0 \<rparr>"
    "stopIdsByTripId eng ''T'' = Some [42]" "stopById eng 42 = Some (stopAt 42 0 0)"
    "stopsCache eng \<noteq> []" "stopInsideByVehicle eng = {(1, 42), (2, 42)}"
    by (simp_all add: eng_def exampleEngine_def buildStaticCaches_def newMap_def tripOf_def
        stopTimeOf_def setAdd_def initialEngine_def stopAt_def)
  have co: "cachesCoherent eng" by (simp add: eng_def exampleEngine_facts)
  have sk: "skipped eng v"
    by (simp add: skipped_def v_def vehicleAt_def caches)
  have hav: "haversineMeters 0 (lonAt 65) 0 0 = 65" by (simp add: haversine_on_equator)
  have vv: "visitVehicle eng 1000 v st = st" for st
    using sk by (rule skipped_visitVehicle)
  have em: "emitted 1000 [v, w] (eng, emptyDatabase)
      = [exitEvent 1000 w 7 1000 0 (lonAt 65) (stopAt 42 0 0) 65]"
    using caches(4)
    by (simp add: emitted_eq detectVisits_def vv)
       (simp add: w_def visitVehicle_def visitStop_def caches vehicleAt_def stopAt_def
          hav STOP_EXIT_RADIUS_METERS_def Let_def)
  have ids: "v_id v = 1" "v_id w = 2" "v_trip_id w = Some ''T''" "v_route_id w = Some 7"
    "stop_id (stopAt 42 0 0) = 42"
    by (simp_all add: v_def w_def vehicleAt_def stopAt_def)
  from skip_invariant [of eng v 1000 "({(1, 42), (2, 42)}, [])" "[v, w]" 1 emptyDatabase]
  show ?thesis
    unfolding eng_def [symmetric] v_def [symmetric] w_def [symmetric]
    using sk co em ids caches
    by (auto simp add: exitEvent_def)
qed

section \<open>The analytics of a stop\<close>

lemma dayKeysOf_eq:
  "dayKeysOf z today =
     map (\<lambda>i. \<lparr> dk_key = windowDay z today i, dk_isToday = (i = 0) \<rparr>) [6, 5, 4, 3, 2, 1, 0]"
  by (simp add: dayKeysOf_def windowDay_def)

text \<open>Where converting back the local time \<open>i\<close> days before now gives an instant with
  that local time, day \<open>i\<close> of the window is the calendar day \<open>i\<close> days before today; so
  it is in a zone with one offset.\<close>

lemma windowDay_regular:
  assumes "LocalTime z (UTC z (LocalTime z today - i * 86400000)) = LocalTime z today - i * 86400000"
  shows "windowDay z today i = localDateKey z today - i"
proof -
  have "(LocalTime z today - i * 86400000) div 86400000 = LocalTime z today div 86400000 - i"
    using div_mult_self1 [of 86400000 "LocalTime z today" "- i"] by simp
  then show ?thesis
    by (simp add: windowDay_def minusDays_def localDateKey_def assms)
qed

lemma windowDay_fixedZone:
  "windowDay (fixedZone tz) today i = localDateKey (fixedZone tz) today - i"
  by (rule windowDay_regular) (simp add: LocalTime_def UTC_def fixedZone_def)

lemma timesOf_addVisit:
  "timesOf (addVisit z daySet (r', ob) vbd) d r =
     timesOf vbd d r @
       (if localDateKey z ob = d \<and> r' = r \<and> d \<in> set daySet then [timeToMinutes z ob] else [])"
  by (auto simp add: addVisit_def timesOf_def Let_def update_conv' split: option.splits)

lemma timesOf_fold_addVisit:
  "timesOf (fold (addVisit z daySet) vs vbd) d r =
     timesOf vbd d r @
       map (\<lambda>v. timeToMinutes z (snd v))
         (filter (\<lambda>v. fst v = r \<and> localDateKey z (snd v) = d \<and> d \<in> set daySet) vs)"
proof (induction vs arbitrary: vbd)
  case Nil
  then show ?case by simp
next
  case (Cons v vs)
  obtain r' ob where v: "v = (r', ob)" by (cases v)
  show ?case
    by (auto simp add: v Cons.IH timesOf_addVisit)
qed

lemma set_alist_update: "set (AList.update k v al) \<subseteq> insert (k, v) (set al)"
  by (induction al) auto

lemma bucketsFilled_addVisit:
  assumes "bucketsFilled vbd"
  shows "bucketsFilled (addVisit z daySet v vbd)"
proof -
  obtain r ob where v: "v = (r, ob)" by (cases v)
  define d where "d = localDateKey z ob"
  define dayMap where "dayMap = (case map_of vbd d of None \<Rightarrow> [] | Some m \<Rightarrow> m)"
  define bucket where "bucket = (case map_of dayMap r of
                               None \<Rightarrow> \<lparr> b_times = [], b_predicted = False \<rparr>
                             | Some b \<Rightarrow> b)"
  define dayMap' where "dayMap' = AList.update r (bucket\<lparr> b_times := b_times bucket @ [timeToMinutes z ob] \<rparr>) dayMap"
  have dm: "distinct (map fst dayMap) \<and> list_all (\<lambda>e. b_times (snd e) \<noteq> []) dayMap"
  proof (cases "map_of vbd d")
    case None
    then show ?thesis by (simp add: dayMap_def)
  next
    case (Some m)
    then have "(d, m) \<in> set vbd" by (rule map_of_SomeD)
    with assms show ?thesis
      by (auto simp add: dayMap_def Some bucketsFilled_def list_all_iff)
  qed
  have dm': "distinct (map fst dayMap') \<and> list_all (\<lambda>e. b_times (snd e) \<noteq> []) dayMap'"
    using dm
    by (auto simp add: dayMap'_def distinct_update list_all_iff dest!: set_alist_update [THEN subsetD])
  have "bucketsFilled (AList.update d dayMap' vbd)"
    using assms dm'
    by (auto simp add: bucketsFilled_def distinct_update list_all_iff
        dest!: set_alist_update [THEN subsetD])
  then show ?thesis
    using assms
    by (simp add: addVisit_def v Let_def d_def dayMap_def bucket_def dayMap'_def)
qed

lemma bucketsFilled_fold_addVisit:
  "bucketsFilled vbd \<Longrightarrow> bucketsFilled (fold (addVisit z daySet) vs vbd)"
  by (induction vs arbitrary: vbd) (simp_all add: bucketsFilled_addVisit)

lemma bucketsFilled_Nil: "bucketsFilled []"
  by (simp add: bucketsFilled_def)

lemma filter_alist_key:
  assumes "distinct (map fst m)"
  shows "filter (\<lambda>e. fst e = r) m = (case map_of m r of None \<Rightarrow> [] | Some b \<Rightarrow> [(r, b)])"
  using assms
proof (induction m)
  case Nil
  then show ?case by simp
next
  case (Cons e m)
  obtain k b where e: "e = (k, b)" by (cases e)
  show ?case
  proof (cases "k = r")
    case True
    with Cons.prems e have "r \<notin> fst ` set m" by simp
    then have "map_of m r = None" by (simp add: map_of_eq_None_iff)
    with Cons True e show ?thesis by simp
  next
    case False
    with Cons e show ?thesis by simp
  qed
qed

lemma bucketsFilled_dayMap:
  assumes "bucketsFilled vbd" and "map_of vbd d = Some m"
  shows "distinct (map fst m)" and "filter (\<lambda>entry. b_times (snd entry) \<noteq> []) m = m"
    and "map_of m r = Some b \<Longrightarrow> b_times b \<noteq> []"
proof -
  from assms(2) have "(d, m) \<in> set vbd" by (rule map_of_SomeD)
  with assms(1) have dm: "distinct (map fst m)" "\<forall>e \<in> set m. b_times (snd e) \<noteq> []"
    by (auto simp add: bucketsFilled_def list_all_iff)
  show "distinct (map fst m)" by (rule dm(1))
  show "filter (\<lambda>entry. b_times (snd entry) \<noteq> []) m = m"
    using dm(2) by (simp add: filter_id_conv)
  show "b_times b \<noteq> []" if "map_of m r = Some b"
    using map_of_SomeD [OF that] dm(2) by auto
qed

lemma observedPoints_route:
  assumes "bucketsFilled vbd"
  shows "filter (\<lambda>p. pt_routeId p = r) (observedPoints vbd day) =
     (if timesOf vbd (dk_key day) r = [] then []
      else [\<lparr> pt_routeId = r, pt_minutes = sort (timesOf vbd (dk_key day) r),
              pt_predicted = False \<rparr>])"
proof (cases "map_of vbd (dk_key day)")
  case None
  then show ?thesis by (simp add: observedPoints_def timesOf_def)
next
  case (Some m)
  note f = bucketsFilled_dayMap [OF assms Some]
  define mk where "mk = (\<lambda>entry :: int \<times> Bucket. case entry of (routeId, bucket) \<Rightarrow>
                 \<lparr> pt_routeId = routeId, pt_minutes = sort (b_times bucket),
                   pt_predicted = False \<rparr>)"
  have op: "observedPoints vbd day = map mk m"
    by (simp add: observedPoints_def Some f(2) mk_def)
  have "filter (\<lambda>p. pt_routeId p = r) (map mk m) = map mk (filter (\<lambda>e. fst e = r) m)"
    by (simp add: filter_map o_def mk_def case_prod_beta)
  also have "\<dots> = map mk (case map_of m r of None \<Rightarrow> [] | Some b \<Rightarrow> [(r, b)])"
    by (simp add: filter_alist_key [OF f(1)])
  finally have fl: "filter (\<lambda>p. pt_routeId p = r) (observedPoints vbd day)
      = map mk (case map_of m r of None \<Rightarrow> [] | Some b \<Rightarrow> [(r, b)])"
    by (simp add: op)
  show ?thesis
  proof (cases "map_of m r")
    case None
    then show ?thesis by (simp add: fl timesOf_def Some)
  next
    case (Some b)
    with f(3) [of r b] have "b_times b \<noteq> []" by simp
    then show ?thesis by (simp add: fl timesOf_def \<open>map_of vbd (dk_key day) = Some m\<close> Some mk_def)
  qed
qed

lemma histOf_update:
  "histOf (AList.update k v h) r = (if r = k then v else histOf h r)"
  by (simp add: histOf_def update_conv')

lemma histOf_fold_dayMap:
  assumes "distinct (map fst m)"
  shows "histOf (fold (\<lambda>entry h.
                     case entry of (routeId, bucket) \<Rightarrow>
                       AList.update routeId
                         ((case map_of h routeId of None \<Rightarrow> [] | Some days \<Rightarrow> days)
                            @ [sort (b_times bucket)])
                         h) m h) r
         = histOf h r @ (case map_of m r of None \<Rightarrow> [] | Some b \<Rightarrow> [sort (b_times b)])"
  using assms
proof (induction m arbitrary: h)
  case Nil
  then show ?case by simp
next
  case (Cons e m)
  obtain k b where e: "e = (k, b)" by (cases e)
  from Cons.prems e have k: "k \<notin> fst ` set m" and d: "distinct (map fst m)" by simp_all
  from k have none: "map_of m k = None" by (simp add: map_of_eq_None_iff)
  show ?case
    using none
    by (simp add: e Cons.IH [OF d] histOf_update) (simp add: histOf_def)
qed

lemma histOf_addHistory:
  assumes "bucketsFilled vbd"
  shows "histOf (addHistory vbd day h) r =
     histOf h r @ (if dk_isToday day \<or> timesOf vbd (dk_key day) r = [] then []
                   else [sort (timesOf vbd (dk_key day) r)])"
proof (cases "map_of vbd (dk_key day)")
  case None
  then show ?thesis by (simp add: addHistory_def timesOf_def)
next
  case (Some m)
  note f = bucketsFilled_dayMap [OF assms Some]
  show ?thesis
    using f(3) [of r]
    by (simp add: addHistory_def Some histOf_fold_dayMap [OF f(1)] timesOf_def
        split: option.split)
qed

lemma histOf_fold_addHistory:
  assumes "bucketsFilled vbd"
  shows "histOf (fold (addHistory vbd) dks h) r =
     histOf h r @
       concat (map (\<lambda>day. if dk_isToday day \<or> timesOf vbd (dk_key day) r = [] then []
                          else [sort (timesOf vbd (dk_key day) r)]) dks)"
proof (induction dks arbitrary: h)
  case Nil
  then show ?case by simp
next
  case (Cons day dks)
  show ?case
    by (simp add: Cons.IH histOf_addHistory [OF assms])
qed

lemma distinct_fold_dayMap:
  fixes m :: "(int \<times> Bucket) list" and h :: "(int \<times> real list list) list"
  assumes "distinct (map fst h)"
  shows "distinct (map fst (fold (\<lambda>entry h.
                     case entry of (routeId, bucket) \<Rightarrow>
                       AList.update routeId
                         ((case map_of h routeId of None \<Rightarrow> [] | Some days \<Rightarrow> days)
                            @ [sort (b_times bucket)])
                         h) m h))"
  using assms
proof (induction m arbitrary: h)
  case Nil
  then show ?case by simp
next
  case (Cons e m)
  then show ?case by (cases e) (simp add: distinct_update)
qed

lemma distinct_addHistory:
  assumes "distinct (map fst h)"
  shows "distinct (map fst (addHistory vbd day h))"
  using assms
  by (simp add: addHistory_def distinct_fold_dayMap split: option.split)

lemma distinct_fold_addHistory:
  "distinct (map fst h) \<Longrightarrow> distinct (map fst (fold (addHistory vbd) dks h))"
  by (induction dks arbitrary: h) (simp_all add: distinct_addHistory)

lemma futurePoints_route:
  assumes "distinct (map fst pbr)"
  shows "filter (\<lambda>p. pt_routeId p = r) (futurePoints pbr now) =
     (case map_of pbr r of
        None \<Rightarrow> []
      | Some ms \<Rightarrow>
          if filter (\<lambda>m. m > now) ms = [] then []
          else [\<lparr> pt_routeId = r, pt_minutes = filter (\<lambda>m. m > now) ms, pt_predicted = True \<rparr>])"
  using assms
proof (induction pbr)
  case Nil
  then show ?case by (simp add: futurePoints_def)
next
  case (Cons e pbr)
  obtain k ms where e: "e = (k, ms)" by (cases e)
  from Cons.prems e have k: "k \<notin> fst ` set pbr" and d: "distinct (map fst pbr)" by simp_all
  from k have none: "map_of pbr k = None" by (simp add: map_of_eq_None_iff)
  have step: "futurePoints ((k, ms) # pbr) now =
     (if filter (\<lambda>m. m > now) ms = [] then futurePoints pbr now
      else \<lparr> pt_routeId = k, pt_minutes = filter (\<lambda>m. m > now) ms, pt_predicted = True \<rparr>
             # futurePoints pbr now)"
    by (simp add: futurePoints_def Let_def)
  show ?case
    unfolding e using none Cons.IH [OF d]
    by (auto simp add: step)
qed

lemma newMap_fold_dom:
  "(fold (\<lambda>(k, v) m. m(k \<mapsto> v)) entries m0 k \<noteq> None)
     = (k \<in> fst ` set entries \<or> m0 k \<noteq> None)"
proof (induction entries arbitrary: m0)
  case Nil
  then show ?case by simp
next
  case (Cons e entries)
  obtain a b where e: "e = (a, b)" by (cases e)
  have "fold (\<lambda>(k, v) m. m(k \<mapsto> v)) (e # entries) m0 k
        = fold (\<lambda>(k, v) m. m(k \<mapsto> v)) entries (m0(a \<mapsto> b)) k"
    by (simp only: e fold_simps o_apply case_prod_conv)
  also have "(\<dots> \<noteq> None) = (k \<in> fst ` set entries \<or> (m0(a \<mapsto> b)) k \<noteq> None)"
    by (rule Cons.IH)
  also have "\<dots> = (k \<in> fst ` set (e # entries) \<or> m0 k \<noteq> None)"
    by (auto simp add: e)
  finally show ?case .
qed

lemma newMap_dom: "(newMap entries k \<noteq> None) = (k \<in> fst ` set entries)"
  using newMap_fold_dom [of entries Map.empty k] by (simp add: newMap_def)

lemma selected_runs_aux:
  "map (\<lambda>v. timeToMinutes z (snd v))
     (filter (\<lambda>v. fst v = r \<and> localDateKey z (snd v) = d)
        (filter (\<lambda>v. K (fst v))
           (List.map_filter
              (\<lambda>row. case sv_routeId row of
                 None \<Rightarrow> None
               | Some routeId \<Rightarrow>
                   if sv_stopId row = stopId \<and> sv_observedAt row \<ge> cutoff
                   then Some (routeId, sv_observedAt row) else None)
              rows)))
   = (if K r then
        map (\<lambda>row. timeToMinutes z (sv_observedAt row))
          (filter (\<lambda>row. sv_stopId row = stopId \<and> sv_routeId row = Some r
                         \<and> sv_observedAt row \<ge> cutoff
                         \<and> localDateKey z (sv_observedAt row) = d) rows)
      else [])"
proof (induction rows)
  case Nil
  then show ?case by simp
next
  case (Cons row rows)
  show ?case
    using Cons.IH
    by (cases "sv_routeId row") (auto split: if_splits)
qed

lemma selected_runs:
  "map (\<lambda>v. timeToMinutes z (snd v))
     (filter (\<lambda>v. fst v = r \<and> localDateKey z (snd v) = d)
        (filter (\<lambda>v. newMap (map (\<lambda>row. (rr_routeId row, row)) (routes db)) (fst v) \<noteq> None)
           (selectVisits db stopId (minusDays z today 6))))
   = runTimes z today db stopId d r"
proof -
  have "map (\<lambda>v. timeToMinutes z (snd v))
     (filter (\<lambda>v. fst v = r \<and> localDateKey z (snd v) = d)
        (filter (\<lambda>v. newMap (map (\<lambda>row. (rr_routeId row, row)) (routes db)) (fst v) \<noteq> None)
           (selectVisits db stopId (minusDays z today 6))))
     = (if newMap (map (\<lambda>row. (rr_routeId row, row)) (routes db)) r \<noteq> None then
        map (\<lambda>row. timeToMinutes z (sv_observedAt row))
          (filter (\<lambda>row. sv_stopId row = stopId \<and> sv_routeId row = Some r
                         \<and> sv_observedAt row \<ge> minusDays z today 6
                         \<and> localDateKey z (sv_observedAt row) = d) (stopVisits db))
      else [])"
    unfolding selectVisits_def
    by (rule selected_runs_aux
          [of z r d "\<lambda>k. newMap (map (\<lambda>row. (rr_routeId row, row)) (routes db)) k \<noteq> None"])
  also have "\<dots> = runTimes z today db stopId d r"
    by (simp only: runTimes_def windowStart_def knownRoute_def newMap_dom) (simp add: image_image)
  finally show ?thesis .
qed

lemma daySet_member:
  "i \<in> {0, 1, 2, 3, 4, 5, 6} \<Longrightarrow> windowDay z today i \<in> set (map dk_key (dayKeysOf z today))"
  by (auto simp add: dayKeysOf_eq)

lemma todayPoints_known:
  assumes "stopId \<in> set (map sr_stopId (stops db))"
  shows "\<exists>vbd h. bucketsFilled vbd \<and> distinct (map fst h)
      \<and> (\<forall>i \<in> {0, 1, 2, 3, 4, 5, 6}. \<forall>r.
            timesOf vbd (windowDay z today i) r
              = runTimes z today db stopId (windowDay z today i) r)
      \<and> h = fold (addHistory vbd) (dayKeysOf z today) []
      \<and> todayPoints (stopAnalytics z today db (Some stopId))
          = observedPoints vbd \<lparr> dk_key = windowDay z today 0, dk_isToday = True \<rparr>
            @ futurePoints (map (\<lambda>entry. (fst entry, buildPredictedTimes (snd entry))) h)
                (timeToMinutes z today)"
proof -
  define KV where "KV = filter (\<lambda>v. newMap (map (\<lambda>row. (rr_routeId row, row)) (routes db)) (fst v) \<noteq> None)
           (selectVisits db stopId (minusDays z today 6))"
  define vbd where "vbd = fold (addVisit z (map dk_key (dayKeysOf z today))) KV []"
  define h where "h = fold (addHistory vbd) (dayKeysOf z today) []"
  have bf: "bucketsFilled vbd"
    unfolding vbd_def by (intro bucketsFilled_fold_addVisit bucketsFilled_Nil)
  have dh: "distinct (map fst h)"
    unfolding h_def by (intro distinct_fold_addHistory) simp
  have tm: "timesOf vbd (windowDay z today i) r
              = runTimes z today db stopId (windowDay z today i) r"
    if "i \<in> {0, 1, 2, 3, 4, 5, 6}" for i r
  proof -
    have mem: "windowDay z today i \<in> set (map dk_key (dayKeysOf z today))"
      using that by (rule daySet_member)
    have "timesOf vbd (windowDay z today i) r
          = timesOf [] (windowDay z today i) r @
            map (\<lambda>v. timeToMinutes z (snd v))
              (filter (\<lambda>v. fst v = r \<and> localDateKey z (snd v) = windowDay z today i
                            \<and> windowDay z today i \<in> set (map dk_key (dayKeysOf z today))) KV)"
      unfolding vbd_def by (rule timesOf_fold_addVisit)
    also have "\<dots> = map (\<lambda>v. timeToMinutes z (snd v))
              (filter (\<lambda>v. fst v = r \<and> localDateKey z (snd v) = windowDay z today i) KV)"
      using mem by (simp add: timesOf_def)
    also have "\<dots> = runTimes z today db stopId (windowDay z today i) r"
      unfolding KV_def by (rule selected_runs)
    finally show ?thesis .
  qed
  from assms obtain stop0 rest where st: "filter (\<lambda>row. sr_stopId row = stopId) (stops db) = stop0 # rest"
    by (cases "filter (\<lambda>row. sr_stopId row = stopId) (stops db)")
       (auto simp add: filter_empty_conv)
  have resp: "stopAnalytics z today db (Some stopId) =
      AnalyticsJson \<lparr> ab_stop = stop0,
        ab_days = map (\<lambda>day.
                         \<lparr> de_date = dk_key day, de_isToday = dk_isToday day,
                           de_points =
                             (if dk_isToday day
                              then observedPoints vbd day
                                     @ futurePoints (map (\<lambda>entry. (fst entry, buildPredictedTimes (snd entry))) h)
                                         (timeToMinutes z today)
                              else observedPoints vbd day) \<rparr>)
                      (dayKeysOf z today) \<rparr>"
    unfolding h_def vbd_def KV_def by (simp add: stopAnalytics_def st Let_def)
  have "todayPoints (stopAnalytics z today db (Some stopId))
          = observedPoints vbd \<lparr> dk_key = windowDay z today 0, dk_isToday = True \<rparr>
            @ futurePoints (map (\<lambda>entry. (fst entry, buildPredictedTimes (snd entry))) h)
                (timeToMinutes z today)"
    unfolding resp by (simp add: todayPoints_def dayKeysOf_eq)
  with bf dh tm show ?thesis
    unfolding h_def by blast
qed

lemma scenario_eval:
  "todayPoints (stopAnalytics (fixedZone 0) scenarioNow scenarioDatabase (Some 42))
     = [\<lparr> pt_routeId = 7, pt_minutes = [483], pt_predicted = False \<rparr>,
        \<lparr> pt_routeId = 7, pt_minutes = [496], pt_predicted = True \<rparr>]"
  by (simp add: todayPoints_def stopAnalytics_def scenarioNow_def scenarioDatabase_def
      emptyDatabase_def toStopRow_def stopAt_def routeRowOf_def visitAt_def Let_def
      dayKeysOf_def localDateKey_def minusDays_def LocalTime_def UTC_def fixedZone_def
      timeToMinutes_def getHours_def
      getMinutes_def getSeconds_def selectVisits_def newMap_def addVisit_def addHistory_def
      observedPoints_def futurePoints_def buildPredictedTimes_def percentile_def)

lemma map_of_predicted:
  "map_of (map (\<lambda>entry. (fst entry, f (snd entry))) h) r = map_option f (map_of h r)"
  by (induction h) auto

lemma histOf_history:
  assumes "bucketsFilled vbd"
    and "\<forall>i \<in> {0, 1, 2, 3, 4, 5, 6}. \<forall>r.
            timesOf vbd (windowDay z today i) r
              = runTimes z today db stopId (windowDay z today i) r"
  shows "histOf (fold (addHistory vbd) (dayKeysOf z today) []) r
         = historyOf z today db stopId r"
  unfolding histOf_fold_addHistory [OF assms(1)]
  using assms(2)
  by (simp add: dayKeysOf_eq historyOf_def Let_def histOf_def)

text \<open>
  Claim C5. For a known stop and every route, the points of that route in today's entry
  of the response are: one point, not marked predicted, with the sorted times of the
  runs of the route observed today, when there is any such run; followed by one
  point, marked predicted, with those entries of the route's predicted sequence (the
  positional merge of its history over the six prior days) that are strictly greater
  than the time now, when there is any such entry. Nothing else of the route appears,
  so a predicted time that is past is in no point. Today is day 0 of the window, which
  is the local date of now whenever converting the local time of now back gives an
  instant with that local time. In the scenario of the specification today's points
  are the observed 08:03 (minute 483) and the predicted 08:16 (minute 496); the past
  08:01 is absent.
\<close>

theorem today_points:
  assumes "stopId \<in> set (map sr_stopId (stops db))"
  shows "filter (\<lambda>p. pt_routeId p = r) (todayPoints (stopAnalytics z today db (Some stopId)))
     = (if runTimes z today db stopId (windowDay z today 0) r = [] then []
        else [\<lparr> pt_routeId = r,
                pt_minutes = sort (runTimes z today db stopId (windowDay z today 0) r),
                pt_predicted = False \<rparr>])
       @ (if filter (\<lambda>m. m > timeToMinutes z today)
               (buildPredictedTimes (historyOf z today db stopId r)) = [] then []
          else [\<lparr> pt_routeId = r,
                  pt_minutes = filter (\<lambda>m. m > timeToMinutes z today)
                                 (buildPredictedTimes (historyOf z today db stopId r)),
                  pt_predicted = True \<rparr>])
     \<and> (LocalTime z (UTC z (LocalTime z today)) = LocalTime z today
          \<longrightarrow> windowDay z today 0 = localDateKey z today)
     \<and> todayPoints (stopAnalytics (fixedZone 0) scenarioNow scenarioDatabase (Some 42))
         = [\<lparr> pt_routeId = 7, pt_minutes = [483], pt_predicted = False \<rparr>,
            \<lparr> pt_routeId = 7, pt_minutes = [496], pt_predicted = True \<rparr>]"
proof -
  from todayPoints_known [OF assms, of z today]
  obtain vbd h where bf: "bucketsFilled vbd" and dh: "distinct (map fst h)"
    and tm: "\<forall>i \<in> {0, 1, 2, 3, 4, 5, 6}. \<forall>r.
            timesOf vbd (windowDay z today i) r
              = runTimes z today db stopId (windowDay z today i) r"
    and h: "h = fold (addHistory vbd) (dayKeysOf z today) []"
    and tp: "todayPoints (stopAnalytics z today db (Some stopId))
          = observedPoints vbd \<lparr> dk_key = windowDay z today 0, dk_isToday = True \<rparr>
            @ futurePoints (map (\<lambda>entry. (fst entry, buildPredictedTimes (snd entry))) h)
                (timeToMinutes z today)"
    by blast
  have t0: "timesOf vbd (windowDay z today 0) r
            = runTimes z today db stopId (windowDay z today 0) r"
    using tm by blast
  have hh: "histOf h r = historyOf z today db stopId r"
    unfolding h using bf tm by (rule histOf_history)
  have obs: "filter (\<lambda>p. pt_routeId p = r)
               (observedPoints vbd \<lparr> dk_key = windowDay z today 0, dk_isToday = True \<rparr>)
     = (if runTimes z today db stopId (windowDay z today 0) r = [] then []
        else [\<lparr> pt_routeId = r,
                pt_minutes = sort (runTimes z today db stopId (windowDay z today 0) r),
                pt_predicted = False \<rparr>])"
    using observedPoints_route [OF bf, of r "\<lparr> dk_key = windowDay z today 0, dk_isToday = True \<rparr>"]
    by (simp add: t0)
  have dp: "distinct (map fst (map (\<lambda>entry. (fst entry, buildPredictedTimes (snd entry))) h))"
    using dh by (simp add: o_def)
  have bn: "buildPredictedTimes [] = []" by (simp add: buildPredictedTimes_def)
  have fut: "filter (\<lambda>p. pt_routeId p = r)
               (futurePoints (map (\<lambda>entry. (fst entry, buildPredictedTimes (snd entry))) h)
                  (timeToMinutes z today))
     = (if filter (\<lambda>m. m > timeToMinutes z today)
               (buildPredictedTimes (historyOf z today db stopId r)) = [] then []
          else [\<lparr> pt_routeId = r,
                  pt_minutes = filter (\<lambda>m. m > timeToMinutes z today)
                                 (buildPredictedTimes (historyOf z today db stopId r)),
                  pt_predicted = True \<rparr>])"
    unfolding futurePoints_route [OF dp] map_of_predicted hh [symmetric]
    by (cases "map_of h r") (simp_all add: histOf_def bn)
  have reg: "LocalTime z (UTC z (LocalTime z today)) = LocalTime z today
          \<longrightarrow> windowDay z today 0 = localDateKey z today"
    using windowDay_regular [of z today 0] by simp
  show ?thesis
    unfolding tp filter_append obs fut using scenario_eval reg by simp
qed

theorem today_points_witness:
  "42 \<in> set (map sr_stopId (stops autumnDatabase))
   \<and> LocalTime autumnZone (UTC autumnZone (LocalTime autumnZone autumnNow))
       = LocalTime autumnZone autumnNow
   \<and> localDateKey autumnZone autumnNow = 20026
   \<and> windowStart autumnZone autumnNow = 1729746600000
   \<and> map (windowDay autumnZone autumnNow) [6, 5, 4, 3, 2, 1, 0]
       = [20020, 20021, 20022, 20023, 20024, 20025, 20026]
   \<and> runTimes autumnZone autumnNow autumnDatabase 42 20026 7 = [483]
   \<and> historyOf autumnZone autumnNow autumnDatabase 42 7 = [[510], [540]]
   \<and> timeToMinutes autumnZone autumnNow = 490
   \<and> filter (\<lambda>p. pt_routeId p = 7)
        (todayPoints (stopAnalytics autumnZone autumnNow autumnDatabase (Some 42)))
      = [\<lparr> pt_routeId = 7, pt_minutes = [483], pt_predicted = False \<rparr>,
         \<lparr> pt_routeId = 7, pt_minutes = [525], pt_predicted = True \<rparr>]"
proof -
  have k: "42 \<in> set (map sr_stopId (stops autumnDatabase))"
    by (simp add: autumnDatabase_def toStopRow_def stopAt_def)
  have rt: "LocalTime autumnZone (UTC autumnZone (LocalTime autumnZone autumnNow))
       = LocalTime autumnZone autumnNow"
    by (simp add: LocalTime_def UTC_def autumnZone_def autumnNow_def switchZone_def)
  have now: "timeToMinutes autumnZone autumnNow = 490"
    by (simp add: timeToMinutes_def getHours_def getMinutes_def getSeconds_def autumnNow_def
        autumnZone_def switchZone_def)
  have ws: "windowStart autumnZone autumnNow = 1729746600000"
    by (simp add: windowStart_def minusDays_def LocalTime_def UTC_def autumnZone_def
        autumnNow_def switchZone_def)
  have wd: "windowDay autumnZone autumnNow 6 = 20020" "windowDay autumnZone autumnNow 5 = 20021"
    "windowDay autumnZone autumnNow 4 = 20022" "windowDay autumnZone autumnNow 3 = 20023"
    "windowDay autumnZone autumnNow 2 = 20024" "windowDay autumnZone autumnNow 1 = 20025"
    "windowDay autumnZone autumnNow 0 = 20026"
    by (simp_all add: windowDay_def localDateKey_def minusDays_def LocalTime_def UTC_def
        autumnZone_def autumnNow_def switchZone_def)
  have run: "runTimes autumnZone autumnNow autumnDatabase 42 d 7
      = (if d = 20020 then [510] else if d = 20025 then [540] else if d = 20026 then [483] else [])"
    for d
    unfolding runTimes_def ws
    by (simp add: knownRoute_def autumnDatabase_def routeRowOf_def visitAt_def
        localDateKey_def LocalTime_def timeToMinutes_def getHours_def getMinutes_def
        getSeconds_def emptyDatabase_def autumnZone_def switchZone_def)
  have hi: "historyOf autumnZone autumnNow autumnDatabase 42 7 = [[510], [540]]"
    by (simp add: historyOf_def wd run)
  have bp: "buildPredictedTimes [[510], [540]] = [525]"
    by (simp add: buildPredictedTimes_spec spec_positional_merge_def spec_median_def)
  show ?thesis
    using k rt today_points [OF k, of 7 autumnZone autumnNow]
    by (simp add: now ws wd run hi bp)
qed

lemma selectVisits_empty:
  assumes "\<forall>row \<in> set (stopVisits db). sv_stopId row = stopId \<longrightarrow> sv_observedAt row < cutoff"
  shows "selectVisits db stopId cutoff = []"
proof -
  have "List.map_filter
       (\<lambda>row. case sv_routeId row of
                 None \<Rightarrow> None
               | Some routeId \<Rightarrow>
                   if sv_stopId row = stopId \<and> sv_observedAt row \<ge> cutoff
                   then Some (routeId, sv_observedAt row) else None)
       rows = []" if "\<forall>row \<in> set rows. sv_stopId row = stopId \<longrightarrow> sv_observedAt row < cutoff"
    for rows :: "StopVisit list"
    using that by (induction rows) (auto split: option.split)
  with assms show ?thesis by (simp add: selectVisits_def)
qed

text \<open>
  Claim C6, as amended. For a known stop without any visit in the window (none observed
  at or after the instant six calendar days before now at the same local time), the
  endpoint answers with the JSON body of the stop, and its \<open>days\<close> field holds the seven
  days of the window, oldest first and the last one marked as today, each with an
  empty list of points.
\<close>

theorem no_history_days:
  assumes "stopId \<in> set (map sr_stopId (stops db))"
    and "\<forall>row \<in> set (stopVisits db).
           sv_stopId row = stopId \<longrightarrow> sv_observedAt row < windowStart z today"
  shows "\<exists>stop0. stop0 \<in> set (stops db) \<and> sr_stopId stop0 = stopId
     \<and> stopAnalytics z today db (Some stopId)
         = AnalyticsJson
             \<lparr> ab_stop = stop0,
               ab_days = map (\<lambda>i. \<lparr> de_date = windowDay z today i, de_isToday = (i = 0),
                                    de_points = [] \<rparr>)
                             [6, 5, 4, 3, 2, 1, 0] \<rparr>"
proof -
  from assms(1) obtain stop0 rest where
    st: "filter (\<lambda>row. sr_stopId row = stopId) (stops db) = stop0 # rest"
    by (cases "filter (\<lambda>row. sr_stopId row = stopId) (stops db)")
       (auto simp add: filter_empty_conv)
  then have "stop0 \<in> set (filter (\<lambda>row. sr_stopId row = stopId) (stops db))" by simp
  then have s0: "stop0 \<in> set (stops db)" "sr_stopId stop0 = stopId" by simp_all
  have "stopAnalytics z today db (Some stopId)
         = AnalyticsJson
             \<lparr> ab_stop = stop0,
               ab_days = map (\<lambda>i. \<lparr> de_date = windowDay z today i, de_isToday = (i = 0),
                                    de_points = [] \<rparr>)
                             [6, 5, 4, 3, 2, 1, 0] \<rparr>"
    by (simp add: stopAnalytics_def st Let_def
        selectVisits_empty [OF assms(2) [unfolded windowStart_def]] dayKeysOf_eq
        addHistory_def observedPoints_def futurePoints_def)
  with s0 show ?thesis by blast
qed

theorem no_history_days_witness:
  "42 \<in> set (map sr_stopId (stops (emptyDatabase\<lparr> stops := [toStopRow (stopAt 42 0 0)],
         stopVisits := [visitAt 42 7 1729746000000] \<rparr>)))
   \<and> windowStart autumnZone autumnNow = 1729746600000
   \<and> (\<exists>stop0. sr_stopId stop0 = 42
        \<and> stopAnalytics autumnZone autumnNow
             (emptyDatabase\<lparr> stops := [toStopRow (stopAt 42 0 0)],
                stopVisits := [visitAt 42 7 1729746000000] \<rparr>) (Some 42)
           = AnalyticsJson
               \<lparr> ab_stop = stop0,
                 ab_days = map (\<lambda>i. \<lparr> de_date = 20026 - i, de_isToday = (i = 0), de_points = [] \<rparr>)
                               [6, 5, 4, 3, 2, 1, 0] \<rparr>)"
proof -
  define db where "db = emptyDatabase\<lparr> stops := [toStopRow (stopAt 42 0 0)],
         stopVisits := [visitAt 42 7 1729746000000] \<rparr>"
  have k: "42 \<in> set (map sr_stopId (stops db))"
    by (simp add: db_def toStopRow_def stopAt_def)
  have ws: "windowStart autumnZone autumnNow = 1729746600000"
    by (simp add: windowStart_def minusDays_def LocalTime_def UTC_def autumnZone_def
        autumnNow_def switchZone_def)
  have n: "\<forall>row \<in> set (stopVisits db).
           sv_stopId row = 42 \<longrightarrow> sv_observedAt row < windowStart autumnZone autumnNow"
    by (simp add: db_def visitAt_def ws)
  have wd: "windowDay autumnZone autumnNow 6 = 20020" "windowDay autumnZone autumnNow 5 = 20021"
    "windowDay autumnZone autumnNow 4 = 20022" "windowDay autumnZone autumnNow 3 = 20023"
    "windowDay autumnZone autumnNow 2 = 20024" "windowDay autumnZone autumnNow 1 = 20025"
    "windowDay autumnZone autumnNow 0 = 20026"
    by (simp_all add: windowDay_def localDateKey_def minusDays_def LocalTime_def UTC_def
        autumnZone_def autumnNow_def switchZone_def)
  from no_history_days [OF k n] k ws show ?thesis
    unfolding db_def [symmetric] by (auto simp add: wd)
qed

text \<open>
  Claim C6 as stated says that the \<open>days\<close> field is an empty list. For stop 42 with an
  empty visit table the handler returns seven day entries.
\<close>

theorem empty_day_list_counterexample:
  "stopAnalytics (fixedZone 0) scenarioNow
       (emptyDatabase\<lparr> stops := [toStopRow (stopAt 42 0 0)] \<rparr>) (Some 42)
     = AnalyticsJson
         \<lparr> ab_stop = toStopRow (stopAt 42 0 0),
           ab_days =
             [\<lparr> de_date = 4, de_isToday = False, de_points = [] \<rparr>,
              \<lparr> de_date = 5, de_isToday = False, de_points = [] \<rparr>,
              \<lparr> de_date = 6, de_isToday = False, de_points = [] \<rparr>,
              \<lparr> de_date = 7, de_isToday = False, de_points = [] \<rparr>,
              \<lparr> de_date = 8, de_isToday = False, de_points = [] \<rparr>,
              \<lparr> de_date = 9, de_isToday = False, de_points = [] \<rparr>,
              \<lparr> de_date = 10, de_isToday = True, de_points = [] \<rparr>] \<rparr>
   \<and> stopVisits (emptyDatabase\<lparr> stops := [toStopRow (stopAt 42 0 0)] \<rparr>) = []"
  by (simp add: stopAnalytics_def scenarioNow_def emptyDatabase_def toStopRow_def stopAt_def
      Let_def dayKeysOf_def localDateKey_def minusDays_def LocalTime_def UTC_def fixedZone_def
      selectVisits_def addHistory_def observedPoints_def futurePoints_def)

end
